theory Spec2Isabelle
  imports Main "HOL-Library.AList"
begin

section \<open>Failures\<close>

text \<open>
  A thrown \<^verbatim>\<open>Error\<close> (also a \<^verbatim>\<open>TypeError\<close> the engine throws) is a value carrying
  its message; a function that can throw returns \<open>error + 'a\<close>.
\<close>

datatype error = Error string

section \<open>Schema translator\<close>

text \<open>
  \<^verbatim>\<open>convertJsonSchemaToZod\<close> has the same body in \<^verbatim>\<open>MCPClient\<close> and in
  \<^verbatim>\<open>HTTPMCPClient\<close>; one definition stands for both. A zod schema is the term the
  code builds with \<^verbatim>\<open>z.string()\<close>, \<^verbatim>\<open>.describe(d)\<close>, \<^verbatim>\<open>.optional()\<close>
  and \<^verbatim>\<open>z.object(shape)\<close>. The argument of \<^verbatim>\<open>z.object\<close> is the object
  \<^verbatim>\<open>shape\<close>: its own fields, in the order its keys are enumerated, and its prototype,
  \<open>None\<close> for the \<^verbatim>\<open>Object.prototype\<close> of an object literal.
\<close>

datatype zod =
    ZString | ZNumber | ZBoolean | ZArray zod | ZRecord zod | ZAny
  | ZDescribe zod string
  | ZOptional zod
  | ZObject "(string \<times> zod) list" "zod option"

text \<open>
  A value of \<^verbatim>\<open>schema.properties\<close> has type \<^verbatim>\<open>unknown\<close>. It is \<^verbatim>\<open>null\<close>, or it
  is read through the cast \<^verbatim>\<open>value as { type?: string; description?: string }\<close>; a
  value that is no object has neither field. The two fields are strings when they are
  there, as the cast declares; a \<^verbatim>\<open>type\<close> that is no string would match no case of
  the \<^verbatim>\<open>switch\<close>, as a string does that is none of the five.
\<close>

record json_property =
  prop_type :: "string option"
  prop_description :: "string option"

datatype property_value = Null | Value (the_value: json_property)

record inputSchema =
  schema_type :: string
  properties :: "(string \<times> property_value) list option"
  required :: "string list option"

record MCPTool =
  tool_name :: string
  tool_description :: "string option"
  inputSchema :: inputSchema

text \<open>JavaScript truthiness of an optional string: present and not empty.\<close>

definition truthy :: "string option \<Rightarrow> bool" where
  "truthy s = (case s of None \<Rightarrow> False | Some v \<Rightarrow> v \<noteq> [])"

text \<open>The \<^verbatim>\<open>switch (prop.type)\<close>.\<close>

definition zod_of_type :: "string option \<Rightarrow> zod" where
  "zod_of_type t =
     (if t = Some ''string'' then ZString
      else if t = Some ''number'' then ZNumber
      else if t = Some ''boolean'' then ZBoolean
      else if t = Some ''array'' then ZArray ZAny
      else if t = Some ''object'' then ZRecord ZAny
      else ZAny)"

text \<open>\<^verbatim>\<open>schema.required?.includes(key)\<close>: an absent list includes nothing.\<close>

definition required_includes :: "string list option \<Rightarrow> string \<Rightarrow> bool" where
  "required_includes req key = (case req of None \<Rightarrow> False | Some ks \<Rightarrow> key \<in> set ks)"

text \<open>The body of the loop from the \<^verbatim>\<open>switch\<close> to \<^verbatim>\<open>zodType.optional()\<close>, for a
  value that is not \<^verbatim>\<open>null\<close>.\<close>

definition convert_property :: "string list option \<Rightarrow> string \<Rightarrow> json_property \<Rightarrow> zod" where
  "convert_property req key prop =
     (let zodType = zod_of_type (prop_type prop);
          zodType = (if truthy (prop_description prop)
                     then ZDescribe zodType (the (prop_description prop)) else zodType);
          zodType = (if \<not> required_includes req key then ZOptional zodType else zodType)
      in zodType)"

text \<open>
  The assignment \<^verbatim>\<open>shape[key] = zodType\<close>. An own field is overwritten. Otherwise the
  prototype chain decides. \<^verbatim>\<open>__proto__\<close> is an accessor of \<^verbatim>\<open>Object.prototype\<close>,
  which every object here inherits: its setter makes \<^verbatim>\<open>zodType\<close> the prototype of
  \<^verbatim>\<open>shape\<close>, and \<^verbatim>\<open>shape\<close> gets no field. Every other key that
  \<^verbatim>\<open>Object.prototype\<close> has is a writable data property, so under the prototype of
  the literal the assignment adds the field. Once a schema object is the prototype, what
  it and its classes define for the key decides, and that is the zod library's:
  \<open>inherited\<close> tells it. A writable data property, or none, adds the field; a setter
  is called and no field is added; an accessor without setter or a read-only property
  makes the assignment throw a \<^verbatim>\<open>TypeError\<close>, the module being strict code.
\<close>

datatype slot = Writable | Setter | ReadOnly

record shape =
  own :: "(string \<times> zod) list"
  proto :: "zod option"

definition assign :: "(zod \<Rightarrow> string \<Rightarrow> slot) \<Rightarrow> string \<Rightarrow> zod \<Rightarrow> shape \<Rightarrow> error + shape" where
  "assign inherited key zodType sh =
     (if map_of (own sh) key \<noteq> None then Inr (sh\<lparr> own := AList.update key zodType (own sh) \<rparr>)
      else if key = ''__proto__'' then Inr (sh\<lparr> proto := Some zodType \<rparr>)
      else
        (case proto sh of
           None \<Rightarrow> Inr (sh\<lparr> own := AList.update key zodType (own sh) \<rparr>)
         | Some p \<Rightarrow>
             (case inherited p key of
                Writable \<Rightarrow> Inr (sh\<lparr> own := AList.update key zodType (own sh) \<rparr>)
              | Setter \<Rightarrow> Inr sh
              | ReadOnly \<Rightarrow> Inl (Error (''Cannot set property '' @ key)))))"

text \<open>The loop over \<^verbatim>\<open>Object.entries(schema.properties)\<close>. Reading \<^verbatim>\<open>prop.type\<close> of
  \<^verbatim>\<open>null\<close> throws a \<^verbatim>\<open>TypeError\<close>.\<close>

fun convert_entries ::
  "(zod \<Rightarrow> string \<Rightarrow> slot) \<Rightarrow> string list option \<Rightarrow> shape \<Rightarrow> (string \<times> property_value) list
     \<Rightarrow> error + shape" where
  "convert_entries inherited req sh [] = Inr sh"
| "convert_entries inherited req sh ((key, Null) # rest) =
     Inl (Error ''Cannot read properties of null (reading 'type')'')"
| "convert_entries inherited req sh ((key, Value prop) # rest) =
     (case assign inherited key (convert_property req key prop) sh of
        Inl e \<Rightarrow> Inl e
      | Inr sh' \<Rightarrow> convert_entries inherited req sh' rest)"

definition convertJsonSchemaToZod :: "(zod \<Rightarrow> string \<Rightarrow> slot) \<Rightarrow> inputSchema \<Rightarrow> error + zod" where
  "convertJsonSchemaToZod inherited schema =
     (case properties schema of
        None \<Rightarrow> Inr (ZObject [] None)
      | Some props \<Rightarrow>
          (case convert_entries inherited (required schema) \<lparr> own = [], proto = None \<rparr> props of
             Inl e \<Rightarrow> Inl e
           | Inr sh \<Rightarrow> Inr (ZObject (own sh) (proto sh))))"

text \<open>Reading a translated shape: its fields, and for one field the parameter type under
  the \<^verbatim>\<open>describe\<close> and \<^verbatim>\<open>optional\<close> wrappers and whether the outer wrapper is
  \<^verbatim>\<open>optional\<close>.\<close>

fun shape_of :: "error + zod \<Rightarrow> (string \<times> zod) list" where
  "shape_of (Inr (ZObject fs p)) = fs"
| "shape_of _ = []"

fun base_type :: "zod \<Rightarrow> zod" where
  "base_type (ZOptional z) = base_type z"
| "base_type (ZDescribe z d) = base_type z"
| "base_type z = z"

fun is_optional :: "zod \<Rightarrow> bool" where
  "is_optional (ZOptional z) = True"
| "is_optional _ = False"

text \<open>A zod library whose schema objects inherit nothing that stands in the way of an
  assignment, and one whose schema objects inherit a getter \<^verbatim>\<open>description\<close>.\<close>

definition all_writable :: "zod \<Rightarrow> string \<Rightarrow> slot" where
  "all_writable p key = Writable"

definition description_getter :: "zod \<Rightarrow> string \<Rightarrow> slot" where
  "description_getter p key = (if key = ''description'' then ReadOnly else Writable)"

text \<open>The schema of the specification's example, and schemas with a property named
  \<^verbatim>\<open>__proto__\<close> and with a property whose value is \<^verbatim>\<open>null\<close>.\<close>

definition example_schema :: inputSchema where
  "example_schema =
     \<lparr> schema_type = ''object'',
       properties = Some [(''path'', Value \<lparr> prop_type = Some ''string'', prop_description = None \<rparr>),
                          (''limit'', Value \<lparr> prop_type = Some ''number'', prop_description = None \<rparr>)],
       required = Some [''path''] \<rparr>"

definition proto_schema :: inputSchema where
  "proto_schema =
     \<lparr> schema_type = ''object'',
       properties = Some [(''path'', Value \<lparr> prop_type = Some ''string'', prop_description = None \<rparr>),
                          (''__proto__'', Value \<lparr> prop_type = Some ''number'', prop_description = None \<rparr>)],
       required = Some [''path'', ''__proto__''] \<rparr>"

definition null_schema :: inputSchema where
  "null_schema =
     \<lparr> schema_type = ''object'', properties = Some [(''path'', Null)], required = None \<rparr>"

section \<open>JSON-RPC messages and failures\<close>

text \<open>
  Values of TypeScript type \<^verbatim>\<open>unknown\<close> are kept as their JSON text, except for the
  one field of a result that the client reads, \<^verbatim>\<open>tools\<close>. Calls to the logger change
  nothing the program reads and are left out, except where a property is about them.
\<close>

datatype msg_id = NumId nat | StrId string

record rpc_error =
  e_code :: int
  e_message :: string

record rpc_result =
  tools_field :: "MCPTool list option"
  raw :: string

record MCPMessage =
  m_id :: "msg_id option"
  m_method :: "string option"
  m_params :: "string option"
  m_result :: "rpc_result option"
  m_error :: "rpc_error option"

text \<open>The message ids are JavaScript numbers counted up from 0 by \<^verbatim>\<open>++this.messageId\<close>.
  They are modelled as natural numbers: the count is exact below \<open>2^53\<close>, which no session
  reaches.\<close>

section \<open>Process transport: \<^verbatim>\<open>MCPClient\<close>\<close>

record child_process =
  stdin_piped :: bool

text \<open>The fields of the class. An entry of \<^verbatim>\<open>pendingRequests\<close> holds the
  \<^verbatim>\<open>resolve\<close> and \<^verbatim>\<open>reject\<close> functions of one promise; the model holds the number
  of that promise.\<close>

record MCPClient =
  config_name :: string
  process :: "child_process option"
  messageId :: nat
  pendingRequests :: "(msg_id \<times> nat) list"
  tools :: "MCPTool list"

datatype settled = Resolved "rpc_result option" | Rejected error

datatype removal = ByMessage | ByTimeout | ByStop

text \<open>
  What surrounds the object at run time: the promises \<^verbatim>\<open>sendRequest\<close> has returned,
  in creation order (\<open>None\<close> while unsettled), the timers set by \<^verbatim>\<open>setTimeout\<close>
  (deadline in milliseconds, and the \<^verbatim>\<open>id\<close>, promise and \<^verbatim>\<open>method\<close> the callback
  closes over), the clock, and the lines written to the child's standard input.
  \<open>removed\<close> is a history variable: it records every deletion from
  \<^verbatim>\<open>pendingRequests\<close> with its cause, and nothing reads it.
\<close>

record session =
  client :: MCPClient
  promises :: "settled option list"
  timers :: "(nat \<times> msg_id \<times> nat \<times> string) list"
  now :: nat
  written :: "MCPMessage list"
  removed :: "(msg_id \<times> removal) list"

definition new_MCPClient :: "string \<Rightarrow> MCPClient" where
  "new_MCPClient name =
     \<lparr> config_name = name, process = None, messageId = 0, pendingRequests = [], tools = [] \<rparr>"

definition new_session :: "string \<Rightarrow> session" where
  "new_session name =
     \<lparr> client = new_MCPClient name, promises = [], timers = [], now = 0, written = [],
       removed = [] \<rparr>"

definition not_running :: "MCPClient \<Rightarrow> error" where
  "not_running c = Error (''MCP server '' @ config_name c @ '' is not running'')"

definition request_timeout :: "string \<Rightarrow> error" where
  "request_timeout method = Error (''Request timeout for '' @ method)"

text \<open>The guard \<^verbatim>\<open>!this.process || !this.process.stdin\<close>.\<close>

definition can_write :: "MCPClient \<Rightarrow> bool" where
  "can_write c = (case process c of None \<Rightarrow> False | Some p \<Rightarrow> stdin_piped p)"

text \<open>A promise is settled once; a later \<^verbatim>\<open>resolve\<close> or \<^verbatim>\<open>reject\<close> has no effect.\<close>

definition settle :: "nat \<Rightarrow> settled \<Rightarrow> session \<Rightarrow> session" where
  "settle h out s =
     (if h < length (promises s) \<and> promises s ! h = None
      then s\<lparr> promises := (promises s)[h := Some out] \<rparr> else s)"

definition pending_delete :: "msg_id \<Rightarrow> removal \<Rightarrow> session \<Rightarrow> session" where
  "pending_delete i why s =
     s\<lparr> client := (client s)\<lparr> pendingRequests := AList.delete i (pendingRequests (client s)) \<rparr>,
        removed := removed s @ [(i, why)] \<rparr>"

text \<open>
  \<^verbatim>\<open>sendRequest\<close> up to the point where it returns its promise: the guard, the new id,
  the entry in \<^verbatim>\<open>pendingRequests\<close>, the write, and the timer of 30000 ms. The result
  is the number of the promise; awaiting it yields what the promise is settled with.
\<close>

definition sendRequest :: "string \<Rightarrow> string \<Rightarrow> session \<Rightarrow> error + (nat \<times> session)" where
  "sendRequest method params s =
     (if \<not> can_write (client s) then Inl (not_running (client s))
      else
        let i = messageId (client s) + 1;
            message = \<lparr> m_id = Some (NumId i), m_method = Some method, m_params = Some params,
                        m_result = None, m_error = None \<rparr>;
            h = length (promises s)
        in Inr (h,
             s\<lparr> client := (client s)\<lparr> messageId := i,
                    pendingRequests := AList.update (NumId i) h (pendingRequests (client s)) \<rparr>,
                promises := promises s @ [None],
                written := written s @ [message],
                timers := timers s @ [(now s + 30000, NumId i, h, method)] \<rparr>))"

text \<open>The callback handed to \<^verbatim>\<open>setTimeout\<close>.\<close>

definition on_timeout :: "msg_id \<Rightarrow> nat \<Rightarrow> string \<Rightarrow> session \<Rightarrow> session" where
  "on_timeout i h method s =
     (if map_of (pendingRequests (client s)) i \<noteq> None
      then settle h (Rejected (request_timeout method)) (pending_delete i ByTimeout s)
      else s)"

definition sendNotification :: "string \<Rightarrow> string \<Rightarrow> session \<Rightarrow> error + session" where
  "sendNotification method params s =
     (if \<not> can_write (client s) then Inl (not_running (client s))
      else
        let message = \<lparr> m_id = None, m_method = Some method, m_params = Some params,
                        m_result = None, m_error = None \<rparr>
        in Inr (s\<lparr> written := written s @ [message] \<rparr>))"

text \<open>
  \<^verbatim>\<open>handleMessage\<close>. Only the first branch changes anything; the other two log a
  notification or an unexpected request, and a message that fits no branch is dropped.
\<close>

definition handleMessage :: "MCPMessage \<Rightarrow> session \<Rightarrow> session" where
  "handleMessage message s =
     (case m_id message of
        None \<Rightarrow> s
      | Some i \<Rightarrow>
          (case map_of (pendingRequests (client s)) i of
             None \<Rightarrow> s
           | Some h \<Rightarrow>
               let s' = pending_delete i ByMessage s
               in (case m_error message of
                     Some e \<Rightarrow> settle h (Rejected (Error (e_message e))) s'
                   | None \<Rightarrow> settle h (Resolved (m_result message)) s')))"

text \<open>\<^verbatim>\<open>stop\<close>: nothing when there is no process; otherwise the process is killed and
  forgotten, the table is cleared (no promise is settled) and the tools are dropped.\<close>

definition MCPClient_stop :: "MCPClient \<Rightarrow> MCPClient" where
  "MCPClient_stop c =
     (case process c of
        None \<Rightarrow> c
      | Some p \<Rightarrow> c\<lparr> process := None, pendingRequests := [], tools := [] \<rparr>)"

definition stop :: "session \<Rightarrow> session" where
  "stop s =
     s\<lparr> client := MCPClient_stop (client s),
        removed := removed s @
          (case process (client s) of
             None \<Rightarrow> []
           | Some p \<Rightarrow> map (\<lambda>(i, h). (i, ByStop)) (pendingRequests (client s))) \<rparr>"

text \<open>The first part of \<^verbatim>\<open>start\<close>: nothing when a process exists, else \<^verbatim>\<open>spawn\<close>
  with all three streams piped. The sessions of this section are those of a child that
  was spawned, and last as long as the Node process; a \<^verbatim>\<open>spawn\<close> that throws or a
  child that cannot be spawned is part of \<open>MCPClient_start\<close> below.\<close>

definition spawn :: "session \<Rightarrow> session" where
  "spawn s =
     (case process (client s) of
        Some p \<Rightarrow> s
      | None \<Rightarrow> s\<lparr> client := (client s)\<lparr> process := Some \<lparr> stdin_piped = True \<rparr> \<rparr> \<rparr>)"

text \<open>The \<^verbatim>\<open>exit\<close> handler of the child.\<close>

definition on_exit :: "session \<Rightarrow> session" where
  "on_exit s = s\<lparr> client := (client s)\<lparr> process := None \<rparr> \<rparr>"

text \<open>Time passing: the clock moves on and the callbacks of the timers that are due run,
  in the order the timers were set.\<close>

definition is_due :: "nat \<Rightarrow> (nat \<times> msg_id \<times> nat \<times> string) \<Rightarrow> bool" where
  "is_due t tm = (fst tm \<le> t)"

fun fire :: "(nat \<times> msg_id \<times> nat \<times> string) list \<Rightarrow> session \<Rightarrow> session" where
  "fire [] s = s"
| "fire ((d, i, h, method) # tms) s = fire tms (on_timeout i h method s)"

definition advance :: "nat \<Rightarrow> session \<Rightarrow> session" where
  "advance dt s =
     (let t = now s + dt
      in fire (filter (is_due t) (timers s))
           (s\<lparr> now := t, timers := filter (\<lambda>tm. \<not> is_due t tm) (timers s) \<rparr>))"

text \<open>What can happen to a session, one thing at a time. A call that throws leaves the
  session as it was.\<close>

datatype event =
    Spawn
  | Send string string
  | Notify string string
  | Receive MCPMessage
  | Advance nat
  | Stop
  | Exit

fun step :: "event \<Rightarrow> session \<Rightarrow> session" where
  "step Spawn s = spawn s"
| "step (Send method params) s =
     (case sendRequest method params s of Inl e \<Rightarrow> s | Inr (h, s') \<Rightarrow> s')"
| "step (Notify method params) s =
     (case sendNotification method params s of Inl e \<Rightarrow> s | Inr s' \<Rightarrow> s')"
| "step (Receive message) s = handleMessage message s"
| "step (Advance dt) s = advance dt s"
| "step Stop s = stop s"
| "step Exit s = on_exit s"

fun run :: "event list \<Rightarrow> session \<Rightarrow> session" where
  "run [] s = s"
| "run (e # es) s = run es (step e s)"

text \<open>The ids of the requests written so far, in the order written.\<close>

definition request_ids :: "session \<Rightarrow> msg_id list" where
  "request_ids s = List.map_filter m_id (written s)"

definition pending_ids :: "session \<Rightarrow> msg_id set" where
  "pending_ids s = fst ` set (pendingRequests (client s))"

section \<open>HTTP transport: \<^verbatim>\<open>HTTPMCPClient\<close>\<close>

text \<open>What \<^verbatim>\<open>fetch\<close> does is the network's choice: the promise rejects, or it yields a
  response with a status, a status text and a body that \<^verbatim>\<open>response.json()\<close> parses or
  fails to parse.\<close>

datatype fetch_outcome =
    FetchRejected error
  | FetchResponse nat string "error + MCPMessage"

record HTTPMCPClient =
  h_config_name :: string
  h_messageId :: nat
  h_tools :: "MCPTool list"
  initialized :: bool

definition new_HTTPMCPClient :: "string \<Rightarrow> HTTPMCPClient" where
  "new_HTTPMCPClient name =
     \<lparr> h_config_name = name, h_messageId = 0, h_tools = [], initialized = False \<rparr>"

text \<open>A number in a template string: its decimal digits.\<close>

function show_nat :: "nat \<Rightarrow> string" where
  "show_nat n =
     (if n < 10 then [char_of (48 + n)] else show_nat (n div 10) @ [char_of (48 + n mod 10)])"
  by pat_completeness auto
termination
  by (relation "measure (\<lambda>n. n)") auto

declare show_nat.simps [simp del]

definition response_ok :: "nat \<Rightarrow> bool" where
  "response_ok status = (200 \<le> status \<and> status \<le> 299)"

definition http_sendRequest ::
  "fetch_outcome \<Rightarrow> HTTPMCPClient \<Rightarrow> (error + rpc_result option) \<times> HTTPMCPClient" where
  "http_sendRequest outcome c =
     (let c = c\<lparr> h_messageId := h_messageId c + 1 \<rparr>
      in (case outcome of
            FetchRejected e \<Rightarrow> (Inl e, c)
          | FetchResponse status statusText body \<Rightarrow>
              if \<not> response_ok status
              then (Inl (Error (''HTTP '' @ show_nat status @ '': '' @ statusText)), c)
              else (case body of
                      Inl e \<Rightarrow> (Inl e, c)
                    | Inr data \<Rightarrow>
                        (case m_error data of
                           Some e \<Rightarrow> (Inl (Error (''MCP Error: '' @ e_message e)), c)
                         | None \<Rightarrow> (Inr (m_result data), c)))))"

text \<open>\<^verbatim>\<open>sendNotification\<close> over HTTP: the result, and the lines it logs as errors.\<close>

definition http_sendNotification ::
  "fetch_outcome \<Rightarrow> HTTPMCPClient \<Rightarrow> (error + unit) \<times> error list" where
  "http_sendNotification outcome c =
     (case outcome of
        FetchRejected e \<Rightarrow> (Inr (), [e])
      | FetchResponse status statusText body \<Rightarrow> (Inr (), []))"

section \<open>Starting a client\<close>

text \<open>
  \<^verbatim>\<open>start\<close> awaits its requests one after the other. What the server at the other end
  does during one \<^verbatim>\<open>start\<close> is the world's choice. Over HTTP it is the outcome of the
  three POSTs. Over a child process it is whether \<^verbatim>\<open>spawn\<close> throws (it does for an
  argument it refuses), whether the child process object or its standard input emits an
  \<^verbatim>\<open>error\<close> event while \<^verbatim>\<open>start\<close> is awaited (the command cannot be spawned,
  or a write meets a closed pipe), what each awaited \<^verbatim>\<open>sendRequest\<close> yields (the
  \<^verbatim>\<open>result\<close> of the response, or the failure the promise is rejected with: the
  server's error or the timeout) and whether the child has exited by the time
  \<^verbatim>\<open>notifications/initialized\<close> is written.
\<close>

record http_handshake =
  initialize_fetch :: fetch_outcome
  initialized_fetch :: fetch_outcome
  tools_list_fetch :: fetch_outcome

record stdio_handshake =
  spawn_throws :: "error option"
  error_event :: "error option"
  initialize_reply :: "error + rpc_result option"
  exits_before_notification :: bool
  tools_list_reply :: "error + rpc_result option"

text \<open>\<^verbatim>\<open>if (response && response.tools)\<close>: the tools of a \<^verbatim>\<open>tools/list\<close> result,
  if it has any.\<close>

definition response_tools :: "rpc_result option \<Rightarrow> MCPTool list option" where
  "response_tools response = (case response of None \<Rightarrow> None | Some r \<Rightarrow> tools_field r)"

definition HTTPMCPClient_initialize ::
  "http_handshake \<Rightarrow> HTTPMCPClient \<Rightarrow> (error + unit) \<times> HTTPMCPClient" where
  "HTTPMCPClient_initialize hs c =
     (case http_sendRequest (initialize_fetch hs) c of
        (Inl e, c') \<Rightarrow> (Inl e, c')
      | (Inr response, c') \<Rightarrow> (fst (http_sendNotification (initialized_fetch hs) c'), c'))"

definition HTTPMCPClient_fetchTools ::
  "http_handshake \<Rightarrow> HTTPMCPClient \<Rightarrow> (error + unit) \<times> HTTPMCPClient" where
  "HTTPMCPClient_fetchTools hs c =
     (case http_sendRequest (tools_list_fetch hs) c of
        (Inl e, c') \<Rightarrow> (Inl e, c')
      | (Inr response, c') \<Rightarrow>
          (case response_tools response of
             None \<Rightarrow> (Inr (), c')
           | Some ts \<Rightarrow> (Inr (), c'\<lparr> h_tools := ts \<rparr>)))"

definition HTTPMCPClient_start ::
  "http_handshake \<Rightarrow> HTTPMCPClient \<Rightarrow> (error + unit) \<times> HTTPMCPClient" where
  "HTTPMCPClient_start hs c =
     (if initialized c then (Inr (), c)
      else
        (case HTTPMCPClient_initialize hs c of
           (Inl e, c') \<Rightarrow> (Inl e, c')
         | (Inr u, c') \<Rightarrow>
             (case HTTPMCPClient_fetchTools hs c' of
                (Inl e, c'') \<Rightarrow> (Inl e, c'')
              | (Inr u', c'') \<Rightarrow> (Inr (), c''\<lparr> initialized := True \<rparr>))))"

text \<open>An awaited \<^verbatim>\<open>sendRequest\<close> of the process transport: the guard, the next id, and
  then the promise's outcome. Its entry in \<^verbatim>\<open>pendingRequests\<close> is gone again by the
  time the promise is settled.\<close>

definition await_sendRequest ::
  "error + rpc_result option \<Rightarrow> MCPClient \<Rightarrow> (error + rpc_result option) \<times> MCPClient" where
  "await_sendRequest reply c =
     (if \<not> can_write c then (Inl (not_running c), c)
      else (reply, c\<lparr> messageId := messageId c + 1 \<rparr>))"

definition MCPClient_initialize ::
  "stdio_handshake \<Rightarrow> MCPClient \<Rightarrow> (error + unit) \<times> MCPClient" where
  "MCPClient_initialize hs c =
     (case await_sendRequest (initialize_reply hs) c of
        (Inl e, c') \<Rightarrow> (Inl e, c')
      | (Inr response, c') \<Rightarrow>
          let c'' = (if exits_before_notification hs then c'\<lparr> process := None \<rparr> else c')
          in if \<not> can_write c'' then (Inl (not_running c''), c'') else (Inr (), c''))"

definition MCPClient_fetchTools ::
  "stdio_handshake \<Rightarrow> MCPClient \<Rightarrow> (error + unit) \<times> MCPClient" where
  "MCPClient_fetchTools hs c =
     (case await_sendRequest (tools_list_reply hs) c of
        (Inl e, c') \<Rightarrow> (Inl e, c')
      | (Inr response, c') \<Rightarrow>
          (case response_tools response of
             None \<Rightarrow> (Inr (), c')
           | Some ts \<Rightarrow> (Inr (), c'\<lparr> tools := ts \<rparr>)))"

text \<open>
  \<^verbatim>\<open>start\<close> of the process transport. When \<^verbatim>\<open>spawn\<close> throws, \<^verbatim>\<open>start\<close>
  throws, before \<^verbatim>\<open>this.process\<close> is assigned. \<^verbatim>\<open>spawn\<close> returns a child
  process object also when the command cannot be spawned; the object then emits an
  \<^verbatim>\<open>error\<close> event on the next tick. \<^verbatim>\<open>start\<close> registers listeners for the data
  of the two output streams and for \<^verbatim>\<open>exit\<close>, and none for \<^verbatim>\<open>error\<close>, on the
  child or on its streams: such an event is thrown as an uncaught exception and ends the
  Node process, while \<^verbatim>\<open>start\<close> awaits a request. A call that is awaited then never
  returns: it fails with \<open>Uncaught\<close>, which no \<^verbatim>\<open>catch\<close> sees, and the client is
  left as it was after \<^verbatim>\<open>spawn\<close>. \<open>Thrown\<close> is an exception thrown to the caller.
\<close>

datatype failure = Thrown error | Uncaught error

fun error_of :: "failure \<Rightarrow> error" where
  "error_of (Thrown e) = e"
| "error_of (Uncaught e) = e"

definition MCPClient_start ::
  "stdio_handshake \<Rightarrow> MCPClient \<Rightarrow> (failure + unit) \<times> MCPClient" where
  "MCPClient_start hs c =
     (case process c of
        Some p \<Rightarrow> (Inr (), c)
      | None \<Rightarrow>
          (case spawn_throws hs of
             Some e \<Rightarrow> (Inl (Thrown e), c)
           | None \<Rightarrow>
               let c0 = c\<lparr> process := Some \<lparr> stdin_piped = True \<rparr> \<rparr>
               in (case error_event hs of
                     Some e \<Rightarrow> (Inl (Uncaught e), c0)
                   | None \<Rightarrow>
                       (case MCPClient_initialize hs c0 of
                          (Inl e, c') \<Rightarrow> (Inl (Thrown e), c')
                        | (Inr u, c') \<Rightarrow>
                            (case MCPClient_fetchTools hs c' of
                               (Inl e, c'') \<Rightarrow> (Inl (Thrown e), c'')
                             | (Inr u', c'') \<Rightarrow> (Inr (), c''))))))"

section \<open>Tools of a client\<close>

text \<open>
  \<^verbatim>\<open>getTools\<close> has the same body in both classes. A tool's \<^verbatim>\<open>execute\<close> closes over
  the client object and the tool's name; the model keeps the number of the object and the
  name. A client object is its number (the count of client objects made before it) and
  its fields. \<^verbatim>\<open>getTools\<close> throws when the translation of a tool's schema throws.
  \<open>inherited\<close> is the part of the zod library that the translation depends on.
\<close>

record Tool =
  t_description :: string
  parameters :: zod
  execute :: "nat \<times> string"

definition qualified_name :: "string \<Rightarrow> string \<Rightarrow> string" where
  "qualified_name server tool = ''mcp_'' @ server @ ''_'' @ tool"

definition description_or_name :: "MCPTool \<Rightarrow> string" where
  "description_or_name t = (if truthy (tool_description t) then the (tool_description t) else tool_name t)"

fun getTools_from ::
  "(zod \<Rightarrow> string \<Rightarrow> slot) \<Rightarrow> nat \<Rightarrow> string \<Rightarrow> (string \<times> Tool) list \<Rightarrow> MCPTool list
     \<Rightarrow> error + (string \<times> Tool) list" where
  "getTools_from inherited obj server acc [] = Inr acc"
| "getTools_from inherited obj server acc (mcpTool # rest) =
     (case convertJsonSchemaToZod inherited (inputSchema mcpTool) of
        Inl e \<Rightarrow> Inl e
      | Inr zodSchema \<Rightarrow>
          getTools_from inherited obj server
            (AList.update (qualified_name server (tool_name mcpTool))
               \<lparr> t_description = description_or_name mcpTool,
                 parameters = zodSchema,
                 execute = (obj, tool_name mcpTool) \<rparr> acc)
            rest)"

definition getTools ::
  "(zod \<Rightarrow> string \<Rightarrow> slot) \<Rightarrow> nat \<Rightarrow> string \<Rightarrow> MCPTool list \<Rightarrow> error + (string \<times> Tool) list" where
  "getTools inherited obj server ts = getTools_from inherited obj server [] ts"

definition MCPClient_getTools ::
  "(zod \<Rightarrow> string \<Rightarrow> slot) \<Rightarrow> nat \<times> MCPClient \<Rightarrow> error + (string \<times> Tool) list" where
  "MCPClient_getTools inherited oc =
     getTools inherited (fst oc) (config_name (snd oc)) (tools (snd oc))"

definition HTTPMCPClient_getTools ::
  "(zod \<Rightarrow> string \<Rightarrow> slot) \<Rightarrow> nat \<times> HTTPMCPClient \<Rightarrow> error + (string \<times> Tool) list" where
  "HTTPMCPClient_getTools inherited oc =
     getTools inherited (fst oc) (h_config_name (snd oc)) (h_tools (snd oc))"

text \<open>\<^verbatim>\<open>Object.assign(target, source)\<close>.\<close>

definition object_assign :: "(string \<times> 'a) list \<Rightarrow> (string \<times> 'a) list \<Rightarrow> (string \<times> 'a) list" where
  "object_assign target source = foldl (\<lambda>acc (k, v). AList.update k v acc) target source"

section \<open>The manager of process-transport clients\<close>

datatype transport = Stdio | Http

text \<open>
  The life of the client objects, as a history the program never reads: an object is
  constructed for a server (its number, transport, server name, and command or URL),
  its \<^verbatim>\<open>start\<close> returns (with the tools it then holds) or fails (it throws, or the
  Node process ends), and a running process-transport client is stopped.
\<close>

datatype lifecycle =
    Constructed nat transport string string
  | Ready nat "MCPTool list"
  | Failed nat error
  | Stopped nat

record heap =
  allocated :: nat
  trace :: "lifecycle list"

record world =
  stdio_server :: "nat \<Rightarrow> stdio_handshake"
  http_server :: "nat \<Rightarrow> http_handshake"
  zod_inherited :: "zod \<Rightarrow> string \<Rightarrow> slot"

text \<open>The configuration \<^verbatim>\<open>MCPClient\<close> is constructed with.\<close>

record stdio_config =
  sc_name :: string
  sc_description :: "string option"
  sc_command :: string
  sc_args :: "string list"
  sc_env :: "(string \<times> string) list option"

type_synonym MCPManager = "(string \<times> nat \<times> MCPClient) list"

definition addServer ::
  "world \<Rightarrow> stdio_config \<Rightarrow> MCPManager \<times> heap \<Rightarrow> (failure + unit) \<times> MCPManager \<times> heap" where
  "addServer w config mh =
     (case mh of (clients, hp) \<Rightarrow>
        if map_of clients (sc_name config) \<noteq> None then (Inr (), clients, hp)
        else
          let obj = allocated hp;
              hp1 = hp\<lparr> allocated := obj + 1,
                       trace := trace hp @ [Constructed obj Stdio (sc_name config) (sc_command config)] \<rparr>
          in (case MCPClient_start (stdio_server w obj) (new_MCPClient (sc_name config)) of
                (Inl f, c) \<Rightarrow> (Inl f, clients, hp1\<lparr> trace := trace hp1 @ [Failed obj (error_of f)] \<rparr>)
              | (Inr u, c) \<Rightarrow>
                  (Inr (), AList.update (sc_name config) (obj, c) clients,
                   hp1\<lparr> trace := trace hp1 @ [Ready obj (tools c)] \<rparr>)))"

fun getAllTools_from ::
  "(zod \<Rightarrow> string \<Rightarrow> slot) \<Rightarrow> (string \<times> Tool) list \<Rightarrow> MCPManager \<Rightarrow> error + (string \<times> Tool) list" where
  "getAllTools_from inherited allTools [] = Inr allTools"
| "getAllTools_from inherited allTools ((name, oc) # rest) =
     (case MCPClient_getTools inherited oc of
        Inl e \<Rightarrow> Inl e
      | Inr ts \<Rightarrow> getAllTools_from inherited (object_assign allTools ts) rest)"

definition getAllTools ::
  "(zod \<Rightarrow> string \<Rightarrow> slot) \<Rightarrow> MCPManager \<Rightarrow> error + (string \<times> Tool) list" where
  "getAllTools inherited clients = getAllTools_from inherited [] clients"

text \<open>\<^verbatim>\<open>stopAll\<close>: every client is stopped, in the order of the map, and the map is
  cleared. A client without a process returns from \<^verbatim>\<open>stop\<close> at once.\<close>

definition stop_events :: "MCPManager \<Rightarrow> lifecycle list" where
  "stop_events clients =
     map (\<lambda>(name, obj, c). Stopped obj) (filter (\<lambda>(name, obj, c). process c \<noteq> None) clients)"

definition stopAll :: "MCPManager \<times> heap \<Rightarrow> MCPManager \<times> heap" where
  "stopAll mh =
     (case mh of (clients, hp) \<Rightarrow> ([], hp\<lparr> trace := trace hp @ stop_events clients \<rparr>))"

section \<open>The loader\<close>

text \<open>
  The records the configuration store hands to the loader. The store's records also carry
  \<^verbatim>\<open>enabled\<close>, which the loader's interface does not declare and its code never reads.
\<close>

record MCPServerConfig =
  name :: string
  description :: "string option"
  transport :: transport
  command :: "string option"
  args :: "string list option"
  env :: "(string \<times> string) list option"
  url :: "string option"
  headers :: "(string \<times> string) list option"
  enabled :: bool

text \<open>
  \<^verbatim>\<open>configHash\<close> is \<^verbatim>\<open>JSON.stringify\<close> of the list of \<^verbatim>\<open>{name, command, args, env}\<close>.
  Two such lists have the same text exactly when they are equal, so the text is modelled
  by the list. The initial \<^verbatim>\<open>currentServerConfigs\<close>, the empty string, is the text of no
  list: it is \<open>None\<close>.
\<close>

type_synonym config_hash =
  "(string \<times> string option \<times> string list option \<times> (string \<times> string) list option) list"

definition configHash :: "MCPServerConfig list \<Rightarrow> config_hash" where
  "configHash stdioServers = map (\<lambda>s. (name s, command s, args s, env s)) stdioServers"

record loader_state =
  globalMCPManager :: "MCPManager option"
  globalHTTPClients :: "(string \<times> nat \<times> HTTPMCPClient) list"
  currentServerConfigs :: "config_hash option"
  heap :: heap

definition initial_state :: loader_state where
  "initial_state =
     \<lparr> globalMCPManager = None, globalHTTPClients = [], currentServerConfigs = None,
       heap = \<lparr> allocated = 0, trace = [] \<rparr> \<rparr>"

text \<open>The loop \<^verbatim>\<open>for (const server of stdioServers)\<close>; a failure of \<^verbatim>\<open>addServer\<close>
  leaves the loop. \<open>stdio_config_of\<close> is the object literal passed to \<^verbatim>\<open>addServer\<close>;
  it is built only after the test of \<^verbatim>\<open>server.command\<close>.\<close>

definition stdio_config_of :: "MCPServerConfig \<Rightarrow> stdio_config" where
  "stdio_config_of server =
     \<lparr> sc_name = name server, sc_description = description server,
       sc_command = the (command server),
       sc_args = (case args server of None \<Rightarrow> [] | Some as \<Rightarrow> as),
       sc_env = env server \<rparr>"

fun start_stdio_servers ::
  "world \<Rightarrow> MCPServerConfig list \<Rightarrow> MCPManager \<times> heap \<Rightarrow> (failure + unit) \<times> MCPManager \<times> heap" where
  "start_stdio_servers w [] mh = (Inr (), mh)"
| "start_stdio_servers w (server # rest) mh =
     (if \<not> truthy (command server) then start_stdio_servers w rest mh
      else
        (case addServer w (stdio_config_of server) mh of
           (Inl e, mh') \<Rightarrow> (Inl e, mh')
         | (Inr u, mh') \<Rightarrow> start_stdio_servers w rest mh'))"

text \<open>The restart of the manager when the fingerprint has changed: the old manager, if
  there is one, stops its clients; a new manager is made and takes the servers one by
  one; the fingerprint is set after the loop, so not when a start has failed.\<close>

definition restart_manager ::
  "world \<Rightarrow> MCPServerConfig list \<Rightarrow> loader_state \<Rightarrow> (failure + unit) \<times> loader_state" where
  "restart_manager w stdioServers st =
     (let hp = (case globalMCPManager st of
                  None \<Rightarrow> heap st
                | Some clients \<Rightarrow> snd (stopAll (clients, heap st)))
      in (case start_stdio_servers w stdioServers ([], hp) of
            (Inl e, clients', hp') \<Rightarrow>
              (Inl e, st\<lparr> globalMCPManager := Some clients', heap := hp' \<rparr>)
          | (Inr u, clients', hp') \<Rightarrow>
              (Inr (), st\<lparr> globalMCPManager := Some clients', heap := hp',
                          currentServerConfigs := Some (configHash stdioServers) \<rparr>)))"

text \<open>\<^verbatim>\<open>const stdioTools = globalMCPManager?.getAllTools() || {};
  Object.assign(allTools, stdioTools)\<close>: what \<^verbatim>\<open>getAllTools\<close> throws is thrown
  on.\<close>

definition manager_tools :: "world \<Rightarrow> loader_state \<Rightarrow> error + (string \<times> Tool) list" where
  "manager_tools w st =
     (case globalMCPManager st of
        None \<Rightarrow> Inr []
      | Some clients \<Rightarrow> getAllTools (zod_inherited w) clients)"

definition assign_stdio_tools ::
  "world \<Rightarrow> loader_state \<Rightarrow> (string \<times> Tool) list \<Rightarrow> failure + (string \<times> Tool) list" where
  "assign_stdio_tools w st allTools =
     (case manager_tools w st of
        Inl e \<Rightarrow> Inl (Thrown e)
      | Inr stdioTools \<Rightarrow> Inr (object_assign allTools stdioTools))"

text \<open>The block for the process-transport servers, from \<^verbatim>\<open>if (stdioServers.length > 0)\<close>
  to \<^verbatim>\<open>Object.assign(allTools, stdioTools)\<close>.\<close>

definition load_stdio ::
  "world \<Rightarrow> bool \<Rightarrow> MCPServerConfig list \<Rightarrow> (string \<times> Tool) list \<times> loader_state
     \<Rightarrow> (failure + (string \<times> Tool) list) \<times> loader_state" where
  "load_stdio w isServerless stdioServers ts =
     (case ts of (allTools, st) \<Rightarrow>
        if stdioServers = [] then (Inr allTools, st)
        else if isServerless then (Inr allTools, st)
        else
          (case (if Some (configHash stdioServers) \<noteq> currentServerConfigs st
                 then restart_manager w stdioServers st else (Inr (), st)) of
             (Inl f, st') \<Rightarrow> (Inl f, st')
           | (Inr u, st') \<Rightarrow> (assign_stdio_tools w st' allTools, st')))"

text \<open>\<^verbatim>\<open>const httpTools = client.getTools(); Object.assign(allTools, httpTools)\<close>
  inside the \<^verbatim>\<open>try\<close> of the loop: when \<^verbatim>\<open>getTools\<close> throws, nothing is assigned.\<close>

definition assign_http_tools ::
  "world \<Rightarrow> nat \<times> HTTPMCPClient \<Rightarrow> (string \<times> Tool) list \<Rightarrow> (string \<times> Tool) list" where
  "assign_http_tools w oc allTools =
     (case HTTPMCPClient_getTools (zod_inherited w) oc of
        Inl e \<Rightarrow> allTools
      | Inr httpTools \<Rightarrow> object_assign allTools httpTools)"

text \<open>The loop \<^verbatim>\<open>for (const server of httpServers)\<close>. \<open>load_http_server\<close> is its
  body for one server, with its own \<^verbatim>\<open>try\<close>/\<^verbatim>\<open>catch\<close>: a failed start, or a
  \<^verbatim>\<open>getTools\<close> that throws, is logged and the loop goes on. A client is stored as soon
  as its start has returned.\<close>

definition load_http_server ::
  "world \<Rightarrow> MCPServerConfig \<Rightarrow> (string \<times> Tool) list \<times> loader_state
     \<Rightarrow> (string \<times> Tool) list \<times> loader_state" where
  "load_http_server w server ts =
     (case ts of (allTools, st) \<Rightarrow>
        if \<not> truthy (url server) then (allTools, st)
        else
          (case map_of (globalHTTPClients st) (name server) of
             Some oc \<Rightarrow> (assign_http_tools w oc allTools, st)
           | None \<Rightarrow>
               let obj = allocated (heap st);
                   hp1 = (heap st)\<lparr> allocated := obj + 1,
                            trace := trace (heap st) @
                              [Constructed obj Http (name server) (the (url server))] \<rparr>
               in (case HTTPMCPClient_start (http_server w obj) (new_HTTPMCPClient (name server)) of
                     (Inl e, c) \<Rightarrow>
                       (allTools, st\<lparr> heap := hp1\<lparr> trace := trace hp1 @ [Failed obj e] \<rparr> \<rparr>)
                   | (Inr u, c) \<Rightarrow>
                       (assign_http_tools w (obj, c) allTools,
                        st\<lparr> globalHTTPClients :=
                              AList.update (name server) (obj, c) (globalHTTPClients st),
                            heap := hp1\<lparr> trace := trace hp1 @ [Ready obj (h_tools c)] \<rparr> \<rparr>))))"

fun load_http ::
  "world \<Rightarrow> MCPServerConfig list \<Rightarrow> (string \<times> Tool) list \<times> loader_state
     \<Rightarrow> (string \<times> Tool) list \<times> loader_state" where
  "load_http w [] ts = ts"
| "load_http w (server # rest) ts = load_http w rest (load_http_server w server ts)"

text \<open>The body of the outer \<^verbatim>\<open>try\<close>, and \<^verbatim>\<open>loadMCPTools\<close> with its \<^verbatim>\<open>catch\<close>,
  which sees what is thrown and not the end of the Node process. \<open>isServerless\<close> is the
  test of the three environment variables.\<close>

definition loadMCPTools_try ::
  "world \<Rightarrow> bool \<Rightarrow> MCPServerConfig list \<Rightarrow> loader_state
     \<Rightarrow> (failure + (string \<times> Tool) list) \<times> loader_state" where
  "loadMCPTools_try w isServerless servers st =
     (let stdioServers = filter (\<lambda>s. transport s = Stdio) servers;
          httpServers = filter (\<lambda>s. transport s = Http) servers
      in (case load_stdio w isServerless stdioServers ([], st) of
            (Inl e, st') \<Rightarrow> (Inl e, st')
          | (Inr allTools, st') \<Rightarrow>
              (case load_http w httpServers (allTools, st') of
                 (allTools', st'') \<Rightarrow> (Inr allTools', st''))))"

definition loadMCPTools ::
  "world \<Rightarrow> bool \<Rightarrow> MCPServerConfig list \<Rightarrow> loader_state
     \<Rightarrow> (failure + (string \<times> Tool) list) \<times> loader_state" where
  "loadMCPTools w isServerless servers st =
     (case loadMCPTools_try w isServerless servers st of
        (Inl (Thrown e), st') \<Rightarrow> (Inr [], st')
      | (Inl (Uncaught e), st') \<Rightarrow> (Inl (Uncaught e), st')
      | (Inr allTools, st') \<Rightarrow> (Inr allTools, st'))"

text \<open>The clients of the global manager, none when there is no manager.\<close>

definition manager_clients :: "loader_state \<Rightarrow> MCPManager" where
  "manager_clients st = (case globalMCPManager st of None \<Rightarrow> [] | Some clients \<Rightarrow> clients)"

text \<open>The events a call appended to the history.\<close>

definition events_since :: "loader_state \<Rightarrow> loader_state \<Rightarrow> lifecycle list" where
  "events_since st st' = drop (length (trace (heap st))) (trace (heap st'))"

section \<open>Example servers and configurations\<close>

definition tool :: "string \<Rightarrow> MCPTool" where
  "tool n =
     \<lparr> tool_name = n, tool_description = None,
       inputSchema = \<lparr> schema_type = ''object'', properties = None, required = None \<rparr> \<rparr>"

definition stdio_cfg :: "string \<Rightarrow> string option \<Rightarrow> MCPServerConfig" where
  "stdio_cfg n cmd =
     \<lparr> name = n, description = None, transport = Stdio, command = cmd, args = None,
       env = None, url = None, headers = None, enabled = True \<rparr>"

definition http_cfg :: "string \<Rightarrow> string option \<Rightarrow> MCPServerConfig" where
  "http_cfg n u =
     \<lparr> name = n, description = None, transport = Http, command = None, args = None,
       env = None, url = u, headers = None, enabled = True \<rparr>"

text \<open>A child process that answers both requests, one that never answers
  \<^verbatim>\<open>initialize\<close>, so that the request times out, and a command that cannot be
  spawned.\<close>

definition stdio_serving :: "MCPTool list \<Rightarrow> stdio_handshake" where
  "stdio_serving ts =
     \<lparr> spawn_throws = None, error_event = None,
       initialize_reply = Inr (Some \<lparr> tools_field = None, raw = ''{}'' \<rparr>),
       exits_before_notification = False,
       tools_list_reply = Inr (Some \<lparr> tools_field = Some ts, raw = ''{}'' \<rparr>) \<rparr>"

definition stdio_silent :: stdio_handshake where
  "stdio_silent =
     \<lparr> spawn_throws = None, error_event = None,
       initialize_reply = Inl (request_timeout ''initialize''),
       exits_before_notification = False,
       tools_list_reply = Inl (request_timeout ''tools/list'') \<rparr>"

definition stdio_unspawnable :: "string \<Rightarrow> stdio_handshake" where
  "stdio_unspawnable cmd =
     \<lparr> spawn_throws = None,
       error_event = Some (Error (''spawn '' @ cmd @ '' ENOENT'')),
       initialize_reply = Inl (request_timeout ''initialize''),
       exits_before_notification = False,
       tools_list_reply = Inl (request_timeout ''tools/list'') \<rparr>"

text \<open>An HTTP server that answers every POST with status 200, and one that cannot be
  reached.\<close>

definition http_reply :: "rpc_result \<Rightarrow> fetch_outcome" where
  "http_reply r =
     FetchResponse 200 ''OK''
       (Inr \<lparr> m_id = None, m_method = None, m_params = None, m_result = Some r, m_error = None \<rparr>)"

definition http_serving :: "MCPTool list \<Rightarrow> http_handshake" where
  "http_serving ts =
     \<lparr> initialize_fetch = http_reply \<lparr> tools_field = None, raw = ''{}'' \<rparr>,
       initialized_fetch = http_reply \<lparr> tools_field = None, raw = ''{}'' \<rparr>,
       tools_list_fetch = http_reply \<lparr> tools_field = Some ts, raw = ''{}'' \<rparr> \<rparr>"

definition http_unreachable :: http_handshake where
  "http_unreachable =
     \<lparr> initialize_fetch = FetchRejected (Error ''fetch failed''),
       initialized_fetch = FetchRejected (Error ''fetch failed''),
       tools_list_fetch = FetchRejected (Error ''fetch failed'') \<rparr>"

text \<open>Worlds: every server answers, with the tools \<^verbatim>\<open>read\<close> and \<^verbatim>\<open>write\<close> over a child
  process and \<^verbatim>\<open>search\<close> over HTTP; no child process answers; only the first client
  object's child process answers; the first client object's HTTP server cannot be
  reached; no command can be spawned. In all of them the tools have no properties, so
  the zod library has no part.\<close>

definition all_serving :: world where
  "all_serving =
     \<lparr> stdio_server = (\<lambda>obj. stdio_serving [tool ''read'', tool ''write'']),
       http_server = (\<lambda>obj. http_serving [tool ''search'']),
       zod_inherited = all_writable \<rparr>"

definition stdio_silent_world :: world where
  "stdio_silent_world =
     \<lparr> stdio_server = (\<lambda>obj. stdio_silent),
       http_server = (\<lambda>obj. http_serving [tool ''search'']),
       zod_inherited = all_writable \<rparr>"

definition later_stdio_silent :: world where
  "later_stdio_silent =
     \<lparr> stdio_server =
         (\<lambda>obj. if obj = 0 then stdio_serving [tool ''read'', tool ''write''] else stdio_silent),
       http_server = (\<lambda>obj. http_serving [tool ''search'']),
       zod_inherited = all_writable \<rparr>"

definition first_http_unreachable :: world where
  "first_http_unreachable =
     \<lparr> stdio_server = (\<lambda>obj. stdio_serving [tool ''read'', tool ''write'']),
       http_server = (\<lambda>obj. if obj = 0 then http_unreachable else http_serving [tool ''search'']),
       zod_inherited = all_writable \<rparr>"

definition unspawnable_world :: world where
  "unspawnable_world =
     \<lparr> stdio_server = (\<lambda>obj. stdio_unspawnable ''no-such-command''),
       http_server = (\<lambda>obj. http_serving [tool ''search'']),
       zod_inherited = all_writable \<rparr>"

text \<open>A world whose servers report one tool, with a property whose value is
  \<^verbatim>\<open>null\<close>.\<close>

definition null_schema_world :: world where
  "null_schema_world =
     \<lparr> stdio_server =
         (\<lambda>obj. stdio_serving
            [\<lparr> tool_name = ''broken'', tool_description = None, inputSchema = null_schema \<rparr>]),
       http_server =
         (\<lambda>obj. http_serving
            [\<lparr> tool_name = ''broken'', tool_description = None, inputSchema = null_schema \<rparr>]),
       zod_inherited = all_writable \<rparr>"

text \<open>The keys of a returned tool mapping.\<close>

definition result_keys :: "'e + (string \<times> Tool) list \<Rightarrow> string list" where
  "result_keys r = (case r of Inl e \<Rightarrow> [] | Inr allTools \<Rightarrow> map fst allTools)"

text \<open>Configuration lists, and the state after one load from the initial state and after
  a second load.\<close>

definition fs_and_remote :: "string \<Rightarrow> MCPServerConfig list" where
  "fs_and_remote cmd = [stdio_cfg ''fs'' (Some cmd), http_cfg ''remote'' (Some ''http://x'')]"

definition fs_and_db :: "string \<Rightarrow> MCPServerConfig list" where
  "fs_and_db cmd = [stdio_cfg ''fs'' (Some cmd), stdio_cfg ''db'' None]"

definition loaded_once :: "world \<Rightarrow> MCPServerConfig list \<Rightarrow> loader_state" where
  "loaded_once w servers = snd (loadMCPTools w False servers initial_state)"

definition loaded_twice :: "world \<Rightarrow> MCPServerConfig list \<Rightarrow> MCPServerConfig list \<Rightarrow> loader_state" where
  "loaded_twice w servers servers' = snd (loadMCPTools w False servers' (loaded_once w servers))"

text \<open>The state after a sequence of calls of \<^verbatim>\<open>loadMCPTools\<close>, each with its
  environment and its configuration list. When the Node process ends in a call, there is
  no later call.\<close>

fun after_loads :: "world \<Rightarrow> (bool \<times> MCPServerConfig list) list \<Rightarrow> loader_state \<Rightarrow> loader_state" where
  "after_loads w [] st = st"
| "after_loads w ((isServerless, servers) # rest) st =
     (case loadMCPTools w isServerless servers st of
        (Inl f, st') \<Rightarrow> st'
      | (Inr allTools, st') \<Rightarrow> after_loads w rest st')"

text \<open>Two process-transport servers, and a list whose only configuration has no
  command.\<close>

definition fs_and_bad :: "MCPServerConfig list" where
  "fs_and_bad = [stdio_cfg ''fs'' (Some ''npx''), stdio_cfg ''bad'' (Some ''npx'')]"

definition fs_without_command :: "MCPServerConfig list" where
  "fs_without_command = [stdio_cfg ''fs'' None]"

section \<open>Invariants of a process-transport session\<close>

text \<open>The ids handed out so far, and the ids whose entries have been deleted.\<close>

definition assigned_ids :: "session \<Rightarrow> msg_id set" where
  "assigned_ids s = NumId ` {1..messageId (client s)}"

definition removed_ids :: "session \<Rightarrow> msg_id list" where
  "removed_ids s = map fst (removed s)"

text \<open>Every id handed out is in the table or has been deleted from it, never both and
  never twice, and the requests written carry the ids 1, 2, ... in that order.\<close>

definition bookkeeping :: "session \<Rightarrow> bool" where
  "bookkeeping s =
     (distinct (map fst (pendingRequests (client s)))
      \<and> distinct (removed_ids s)
      \<and> pending_ids s \<inter> set (removed_ids s) = {}
      \<and> pending_ids s \<union> set (removed_ids s) = assigned_ids s
      \<and> request_ids s = map NumId [1..<Suc (messageId (client s))])"

definition handle_of :: "(nat \<times> msg_id \<times> nat \<times> string) \<Rightarrow> nat" where
  "handle_of tm = fst (snd (snd tm))"

definition key_of :: "(nat \<times> msg_id \<times> nat \<times> string) \<Rightarrow> msg_id" where
  "key_of tm = fst (snd tm)"

text \<open>The request with id \<open>n\<close> belongs to promise \<open>n - 1\<close>, in the table and in the
  timers, and no two timers belong to one promise.\<close>

definition correlated :: "session \<Rightarrow> bool" where
  "correlated s =
     (length (promises s) = messageId (client s)
      \<and> (\<forall>(k, h) \<in> set (pendingRequests (client s)). k = NumId (Suc h))
      \<and> (\<forall>tm \<in> set (timers s). key_of tm = NumId (Suc (handle_of tm)) \<and> handle_of tm < messageId (client s))
      \<and> distinct (map handle_of (timers s)))"

text \<open>An event that neither answers the request with id \<open>i\<close> nor stops the session.\<close>

definition quiet_for :: "msg_id \<Rightarrow> event \<Rightarrow> bool" where
  "quiet_for i e = (case e of Stop \<Rightarrow> False | Receive msg \<Rightarrow> m_id msg \<noteq> Some i | _ \<Rightarrow> True)"

text \<open>The request of promise \<open>h\<close>: waiting before its deadline, timed out from then on.\<close>

definition timed_out :: "nat \<Rightarrow> string \<Rightarrow> session \<Rightarrow> bool" where
  "timed_out h method s =
     (promises s ! h = Some (Rejected (request_timeout method))
      \<and> map_of (pendingRequests (client s)) (NumId (Suc h)) = None)"

definition awaiting :: "nat \<Rightarrow> string \<Rightarrow> nat \<Rightarrow> session \<Rightarrow> bool" where
  "awaiting h method deadline s =
     (if now s < deadline
      then promises s ! h = None
           \<and> map_of (pendingRequests (client s)) (NumId (Suc h)) = Some h
           \<and> (deadline, NumId (Suc h), h, method) \<in> set (timers s)
      else promises s ! h = Some (Rejected (request_timeout method))
           \<and> map_of (pendingRequests (client s)) (NumId (Suc h)) = None)"

definition tracked :: "nat \<Rightarrow> string \<Rightarrow> nat \<Rightarrow> session \<Rightarrow> bool" where
  "tracked h method deadline s =
     (correlated s \<and> h < length (promises s) \<and> awaiting h method deadline s)"

text \<open>Every entry of the table has a timer that is due within 30000 ms.\<close>

definition expiring :: "session \<Rightarrow> bool" where
  "expiring s =
     (\<forall>k \<in> pending_ids s. \<exists>tm \<in> set (timers s). key_of tm = k \<and> fst tm \<le> now s + 30000)"

definition stop_free :: "session \<Rightarrow> bool" where
  "stop_free s = (ByStop \<notin> snd ` set (removed s))"

text \<open>Example runs: a session that sends two requests, of which the first is answered and
  the second is not; and one message answering the request with id 1.\<close>

definition response_to :: "nat \<Rightarrow> MCPMessage" where
  "response_to n =
     \<lparr> m_id = Some (NumId n), m_method = None, m_params = None,
       m_result = Some \<lparr> tools_field = None, raw = ''{}'' \<rparr>, m_error = None \<rparr>"

definition two_requests :: "event list" where
  "two_requests =
     [Spawn, Send ''initialize'' ''{}'', Send ''tools/list'' ''{}'', Receive (response_to 1),
      Advance 30000]"

section \<open>Reading the history of a load\<close>

fun is_Failed :: "lifecycle \<Rightarrow> bool" where
  "is_Failed (Failed obj e) = True"
| "is_Failed _ = False"

fun is_Stopped :: "lifecycle \<Rightarrow> bool" where
  "is_Stopped (Stopped obj) = True"
| "is_Stopped _ = False"

text \<open>A client object is constructed only for a configuration of the list whose command
  (process transport) or URL (HTTP transport) is present and not empty.\<close>

fun constructed_from :: "MCPServerConfig list \<Rightarrow> lifecycle \<Rightarrow> bool" where
  "constructed_from servers (Constructed obj Stdio n ep) =
     (\<exists>c \<in> set servers. transport c = Stdio \<and> name c = n \<and> command c = Some ep \<and> ep \<noteq> [])"
| "constructed_from servers (Constructed obj Http n ep) =
     (\<exists>c \<in> set servers. transport c = Http \<and> name c = n \<and> url c = Some ep \<and> ep \<noteq> [])"
| "constructed_from servers _ = True"

text \<open>A process-transport configuration without \<^verbatim>\<open>command\<close>, or an HTTP-transport
  configuration without \<^verbatim>\<open>url\<close>.\<close>

definition endpoint_absent :: "MCPServerConfig \<Rightarrow> bool" where
  "endpoint_absent c = (case transport c of Stdio \<Rightarrow> command c = None | Http \<Rightarrow> url c = None)"

text \<open>Everything of a configuration but \<^verbatim>\<open>description\<close> and \<^verbatim>\<open>enabled\<close>.\<close>

definition restart_fields ::
  "MCPServerConfig \<Rightarrow>
   string \<times> transport \<times> string option \<times> string list option \<times> (string \<times> string) list option
     \<times> string option \<times> (string \<times> string) list option" where
  "restart_fields c = (name c, transport c, command c, args c, env c, url c, headers c)"

text \<open>The process-transport configurations the loop of \<^verbatim>\<open>loadMCPTools\<close> starts a client
  for when none of the starts fails: those with a command, the first of each name.\<close>

fun startable :: "string list \<Rightarrow> MCPServerConfig list \<Rightarrow> MCPServerConfig list" where
  "startable seen [] = []"
| "startable seen (c # cs) =
     (if truthy (command c) \<and> name c \<notin> set seen then c # startable (name c # seen) cs
      else startable seen cs)"


section \<open>What a load does to the history and the state\<close>

text \<open>The HTTP loop over \<open>servers\<close>, taking the state from \<open>st\<close> to \<open>st'\<close>, appends
  \<open>evs\<close> to the history: it stops nothing, constructs clients only for configurations of
  the list, leaves the manager and its fingerprint alone, keeps every HTTP client object
  it found, and, unless a start fails, ends with a client for every server that has a
  URL.\<close>

definition http_effect ::
  "MCPServerConfig list \<Rightarrow> loader_state \<Rightarrow> loader_state \<Rightarrow> lifecycle list \<Rightarrow> bool" where
  "http_effect servers st st' evs =
     (trace (heap st') = trace (heap st) @ evs
      \<and> list_all (constructed_from servers) evs
      \<and> list_all (Not \<circ> is_Stopped) evs
      \<and> allocated (heap st) \<le> allocated (heap st')
      \<and> globalMCPManager st' = globalMCPManager st
      \<and> currentServerConfigs st' = currentServerConfigs st
      \<and> (\<forall>n oc. map_of (globalHTTPClients st) n = Some oc \<longrightarrow> map_of (globalHTTPClients st') n = Some oc)
      \<and> (list_all (Not \<circ> is_Failed) evs \<longrightarrow>
            (\<forall>c \<in> set servers. truthy (url c) \<longrightarrow> map_of (globalHTTPClients st') (name c) \<noteq> None)))"

text \<open>A restart of the manager stops the old manager's running clients and then appends
  \<open>evs\<close>; it returns normally unless a start fails, and only then sets the
  fingerprint.\<close>

definition stdio_effect ::
  "MCPServerConfig list \<Rightarrow> loader_state \<Rightarrow> failure + unit \<Rightarrow> loader_state \<Rightarrow> lifecycle list \<Rightarrow> bool" where
  "stdio_effect servers st r st' evs =
     (trace (heap st') = trace (heap st) @ stop_events (manager_clients st) @ evs
      \<and> list_all (constructed_from servers) evs
      \<and> list_all (Not \<circ> is_Stopped) evs
      \<and> allocated (heap st) \<le> allocated (heap st')
      \<and> globalHTTPClients st' = globalHTTPClients st
      \<and> globalMCPManager st' \<noteq> None
      \<and> (list_all (Not \<circ> is_Failed) evs \<longrightarrow> r = Inr ())
      \<and> currentServerConfigs st' = (if r = Inr () then Some (configHash servers) else currentServerConfigs st))"

definition load_effect ::
  "MCPServerConfig list \<Rightarrow> loader_state \<Rightarrow> loader_state \<Rightarrow> lifecycle list \<Rightarrow> bool" where
  "load_effect servers st st' evs =
     (trace (heap st') = trace (heap st) @ evs \<and> list_all (constructed_from servers) evs)"

text \<open>The HTTP loop reads and writes only the HTTP clients and the heap.\<close>

definition http_part :: "loader_state \<Rightarrow> (string \<times> nat \<times> HTTPMCPClient) list \<times> heap" where
  "http_part st = (globalHTTPClients st, heap st)"

text \<open>The tools the HTTP loop collects when every client is there already.\<close>

definition cached_tools ::
  "world \<Rightarrow> loader_state \<Rightarrow> (string \<times> Tool) list \<Rightarrow> MCPServerConfig list \<Rightarrow> (string \<times> Tool) list" where
  "cached_tools w st t servers =
     foldl (\<lambda>acc c. if truthy (url c)
                     then assign_http_tools w (the (map_of (globalHTTPClients st) (name c))) acc
                     else acc) t servers"

section \<open>Properties of the schema translator\<close>

lemma update_fresh: "k \<notin> fst ` set al \<Longrightarrow> AList.update k v al = al @ [(k, v)]"
  by (induction al) auto

lemma map_of_fresh: "k \<notin> fst ` set al \<Longrightarrow> map_of al k = None"
  by (simp add: map_of_eq_None_iff)

text \<open>Under the prototype of the literal, entries with distinct keys, none of them
  \<^verbatim>\<open>__proto__\<close> and none with the value \<^verbatim>\<open>null\<close>, are translated one by one and
  appended in their order.\<close>

lemma convert_entries_plain:
  assumes "distinct (map fst props)" "''__proto__'' \<notin> fst ` set props" "Null \<notin> snd ` set props"
    and "proto sh = None" "fst ` set (own sh) \<inter> fst ` set props = {}"
  shows "convert_entries inherited req sh props
     = Inr (sh\<lparr> own := own sh @ map (\<lambda>(key, val). (key, convert_property req key (the_value val))) props \<rparr>)"
  using assms
proof (induction props arbitrary: sh)
  case Nil
  then show ?case by simp
next
  case (Cons p props)
  obtain k v where p: "p = (k, v)" by (cases p)
  from Cons.prems(3) p obtain pr where v: "v = Value pr" by (cases v) auto
  have k: "k \<noteq> ''__proto__''" "k \<notin> fst ` set (own sh)" using Cons.prems(2,5) p by auto
  let ?z = "convert_property req k pr"
  let ?sh = "sh\<lparr> own := own sh @ [(k, ?z)] \<rparr>"
  have a: "assign inherited k ?z sh = Inr ?sh"
    using k Cons.prems(4) by (simp add: assign_def map_of_fresh update_fresh)
  have "convert_entries inherited req ?sh props
     = Inr (?sh\<lparr> own := own ?sh @ map (\<lambda>(key, val). (key, convert_property req key (the_value val))) props \<rparr>)"
  proof (rule Cons.IH)
    show "distinct (map fst props)" using Cons.prems(1) by simp
    show "''__proto__'' \<notin> fst ` set props" using Cons.prems(2) by simp
    show "Null \<notin> snd ` set props" using Cons.prems(3) by simp
    show "proto ?sh = None" using Cons.prems(4) by simp
    show "fst ` set (own ?sh) \<inter> fst ` set props = {}" using Cons.prems(1,5) p by auto
  qed
  then show ?case unfolding p v by (simp add: a)
qed

lemma convert_shape:
  assumes "properties schema = Some props" "distinct (map fst props)"
    and "''__proto__'' \<notin> fst ` set props" "Null \<notin> snd ` set props"
  shows "convertJsonSchemaToZod inherited schema
     = Inr (ZObject (map (\<lambda>(key, val). (key, convert_property (required schema) key (the_value val))) props)
              None)"
  using convert_entries_plain[OF assms(2,3,4), of "\<lparr> own = [], proto = None \<rparr>" inherited "required schema"]
    assms(1)
  by (simp add: convertJsonSchemaToZod_def)

lemma base_type_convert: "base_type (convert_property req key p) = zod_of_type (prop_type p)"
  by (auto simp: convert_property_def Let_def zod_of_type_def)

lemma is_optional_convert:
  "is_optional (convert_property req key p) = (\<not> required_includes req key)"
  by (auto simp: convert_property_def Let_def zod_of_type_def)

text \<open>
  For a schema whose property names are distinct, as the keys of a JavaScript object
  are, none of them \<^verbatim>\<open>__proto__\<close>, and whose property values are not \<^verbatim>\<open>null\<close>, the
  translation returns, with whatever zod library: the shape has one field per property,
  in the same order; the field's parameter type is the one matching the property's
  JSON-Schema type, \<^verbatim>\<open>any\<close> for any other or absent type; and the field is left
  required exactly when its name is listed in \<^verbatim>\<open>schema.required\<close>.
\<close>

lemma plain_properties_translated:
  assumes "properties schema = Some props" and "distinct (map fst props)"
    and "''__proto__'' \<notin> fst ` set props" and "Null \<notin> snd ` set props"
    and "(key, Value prop) \<in> set props"
  shows "\<exists>z. map_of (shape_of (convertJsonSchemaToZod inherited schema)) key = Some z
     \<and> (prop_type prop = Some ''string'' \<longrightarrow> base_type z = ZString)
     \<and> (prop_type prop = Some ''number'' \<longrightarrow> base_type z = ZNumber)
     \<and> (prop_type prop = Some ''boolean'' \<longrightarrow> base_type z = ZBoolean)
     \<and> (prop_type prop = Some ''array'' \<longrightarrow> base_type z = ZArray ZAny)
     \<and> (prop_type prop = Some ''object'' \<longrightarrow> base_type z = ZRecord ZAny)
     \<and> (prop_type prop \<notin> {Some ''string'', Some ''number'', Some ''boolean'',
                            Some ''array'', Some ''object''} \<longrightarrow> base_type z = ZAny)
     \<and> (\<not> is_optional z \<longleftrightarrow> (\<exists>ks. required schema = Some ks \<and> key \<in> set ks))
     \<and> map fst (shape_of (convertJsonSchemaToZod inherited schema)) = map fst props"
proof -
  let ?f = "\<lambda>(key, val). (key, convert_property (required schema) key (the_value val))"
  have sh: "shape_of (convertJsonSchemaToZod inherited schema) = map ?f props"
    using convert_shape[OF assms(1-4), of inherited] by simp
  have d: "distinct (map fst (map ?f props))"
    using assms(2) by (simp add: case_prod_unfold comp_def)
  have "(key, convert_property (required schema) key prop) \<in> set (map ?f props)"
    using assms(5) by force
  then have m: "map_of (map ?f props) key = Some (convert_property (required schema) key prop)"
    using d by (meson map_of_eq_Some_iff)
  have req: "required_includes (required schema) key
               = (\<exists>ks. required schema = Some ks \<and> key \<in> set ks)"
    by (simp add: required_includes_def split: option.splits)
  show ?thesis unfolding sh m
    by (auto simp: base_type_convert is_optional_convert req zod_of_type_def
                   case_prod_unfold comp_def)
qed

text \<open>The schema of the specification's example: \<^verbatim>\<open>path\<close> is a required string and
  \<^verbatim>\<open>limit\<close> an optional number.\<close>

lemma example_schema_translated:
  "convertJsonSchemaToZod inherited example_schema
     = Inr (ZObject [(''path'', ZString), (''limit'', ZOptional ZNumber)] None)"
  by (simp add: convertJsonSchemaToZod_def example_schema_def assign_def convert_property_def
      zod_of_type_def required_includes_def truthy_def)

text \<open>After a property named \<^verbatim>\<open>__proto__\<close>, a property whose name the schema objects
  of the library inherit a getter for makes the translation throw.\<close>

lemma assignment_under_schema_prototype:
  "convertJsonSchemaToZod description_getter
     \<lparr> schema_type = ''object'',
       properties = Some [(''__proto__'', Value \<lparr> prop_type = Some ''string'', prop_description = None \<rparr>),
                          (''description'', Value \<lparr> prop_type = Some ''string'', prop_description = None \<rparr>)],
       required = None \<rparr>
     = Inl (Error ''Cannot set property description'')"
  by (simp add: convertJsonSchemaToZod_def assign_def convert_property_def zod_of_type_def
      required_includes_def truthy_def description_getter_def)

text \<open>
  Claim C6 says that every property of \<^verbatim>\<open>schema.properties\<close> is mapped to the parameter
  type matching its JSON-Schema type, and is required exactly when its name is in
  \<^verbatim>\<open>schema.required\<close>. The code does not do this for a property named
  \<^verbatim>\<open>__proto__\<close>: with whatever zod library, the schema whose properties are \<^verbatim>\<open>path\<close>,
  a string, and \<^verbatim>\<open>__proto__\<close>, a number, both required, is translated to a shape whose
  only field is \<^verbatim>\<open>path\<close>; the number schema has become the prototype of the shape, and
  there is no field \<^verbatim>\<open>__proto__\<close>, required or optional. And a schema with a property
  whose value is \<^verbatim>\<open>null\<close> is not translated: the translation throws.
\<close>

theorem proto_property_gets_no_field:
  "convertJsonSchemaToZod inherited proto_schema = Inr (ZObject [(''path'', ZString)] (Some ZNumber))
   \<and> map_of (shape_of (convertJsonSchemaToZod inherited proto_schema)) ''__proto__'' = None
   \<and> convertJsonSchemaToZod inherited null_schema = Inl (Error ''Cannot read properties of null (reading 'type')'')"
  by (simp add: convertJsonSchemaToZod_def proto_schema_def null_schema_def assign_def
      convert_property_def zod_of_type_def required_includes_def truthy_def)

section \<open>Properties of the process transport\<close>

lemma bookkeeping_new: "bookkeeping (new_session n)"
  by (simp add: bookkeeping_def new_session_def new_MCPClient_def pending_ids_def removed_ids_def
      assigned_ids_def request_ids_def List.map_filter_simps)

lemma pending_delete_ids:
  "pending_ids (pending_delete i why s) = pending_ids s - {i}"
  by (auto simp: pending_ids_def pending_delete_def AList.delete_eq)

lemma bookkeeping_pending_delete:
  assumes "bookkeeping s" "i \<in> pending_ids s"
  shows "bookkeeping (pending_delete i why s)"
proof -
  have "pending_ids (pending_delete i why s) = pending_ids s - {i}" by (rule pending_delete_ids)
  moreover have "removed_ids (pending_delete i why s) = removed_ids s @ [i]"
    by (simp add: removed_ids_def pending_delete_def)
  moreover have "messageId (client (pending_delete i why s)) = messageId (client s)"
    "request_ids (pending_delete i why s) = request_ids s"
    "pendingRequests (client (pending_delete i why s)) = AList.delete i (pendingRequests (client s))"
    by (simp_all add: pending_delete_def request_ids_def)
  ultimately show ?thesis using assms
    by (auto simp: bookkeeping_def assigned_ids_def AList.distinct_delete)
qed

lemma settle_fields [simp]:
  "client (settle h out s) = client s" "removed (settle h out s) = removed s"
  "written (settle h out s) = written s" "timers (settle h out s) = timers s"
  "now (settle h out s) = now s"
  by (simp_all add: settle_def)

lemma bookkeeping_settle [simp]: "bookkeeping (settle h out s) = bookkeeping s"
  by (simp add: bookkeeping_def pending_ids_def removed_ids_def assigned_ids_def request_ids_def)

lemma map_of_pending_ids: "map_of (pendingRequests (client s)) i = Some h \<Longrightarrow> i \<in> pending_ids s"
  by (auto simp: pending_ids_def dest: map_of_SomeD intro: rev_image_eqI)

lemma bookkeeping_handleMessage: "bookkeeping s \<Longrightarrow> bookkeeping (handleMessage msg s)"
  by (auto simp: handleMessage_def Let_def bookkeeping_pending_delete map_of_pending_ids
      split: option.splits)

lemma bookkeeping_on_timeout: "bookkeeping s \<Longrightarrow> bookkeeping (on_timeout i h m s)"
  by (auto simp: on_timeout_def bookkeeping_pending_delete map_of_pending_ids)

lemma bookkeeping_fire: "bookkeeping s \<Longrightarrow> bookkeeping (fire tms s)"
  by (induction tms s rule: fire.induct) (auto simp: bookkeeping_on_timeout)

lemma bookkeeping_advance: "bookkeeping s \<Longrightarrow> bookkeeping (advance dt s)"
proof -
  assume b: "bookkeeping s"
  have "bookkeeping (s\<lparr> now := t, timers := tms \<rparr>)" for t tms
    using b by (simp add: bookkeeping_def pending_ids_def removed_ids_def assigned_ids_def request_ids_def)
  then show ?thesis by (simp add: advance_def Let_def bookkeeping_fire)
qed

lemma bookkeeping_sendRequest:
  assumes "bookkeeping s" "sendRequest method params s = Inr (h, s')"
  shows "bookkeeping s'"
proof -
  let ?i = "NumId (Suc (messageId (client s)))"
  from assms(2) have s': "s' = s\<lparr> client := (client s)\<lparr> messageId := Suc (messageId (client s)),
                    pendingRequests := AList.update ?i (length (promises s)) (pendingRequests (client s)) \<rparr>,
                promises := promises s @ [None],
                written := written s @ [\<lparr> m_id = Some ?i, m_method = Some method, m_params = Some params,
                        m_result = None, m_error = None \<rparr>],
                timers := timers s @ [(now s + 30000, ?i, length (promises s), method)] \<rparr>"
    by (auto simp: sendRequest_def Let_def split: if_splits)
  have fresh: "?i \<notin> assigned_ids s" by (auto simp: assigned_ids_def)
  have a: "assigned_ids s' = insert ?i (assigned_ids s)"
    by (auto simp: s' assigned_ids_def atLeastAtMostSuc_conv)
  have p: "pending_ids s' = insert ?i (pending_ids s)"
    by (auto simp: s' pending_ids_def AList.dom_update)
  have r: "removed_ids s' = removed_ids s" by (simp add: s' removed_ids_def)
  have q: "request_ids s' = request_ids s @ [?i]"
    by (simp add: s' request_ids_def List.map_filter_def)
  have d: "distinct (map fst (pendingRequests (client s')))"
    using assms(1) by (simp add: s' bookkeeping_def AList.distinct_update)
  have m: "messageId (client s') = Suc (messageId (client s))" by (simp add: s')
  show ?thesis using assms(1) fresh d
    unfolding bookkeeping_def a p r q m by auto
qed

lemma bookkeeping_stop: "bookkeeping s \<Longrightarrow> bookkeeping (stop s)"
proof (cases "process (client s)")
  case None
  assume "bookkeeping s"
  moreover have "stop s = s\<lparr> client := client s, removed := removed s \<rparr>" using None by (simp add: stop_def MCPClient_stop_def)
  ultimately show ?thesis by simp
next
  case (Some p)
  assume b: "bookkeeping s"
  have r: "removed_ids (stop s) = removed_ids s @ map fst (pendingRequests (client s))"
    using Some by (simp add: stop_def removed_ids_def case_prod_unfold comp_def)
  have p: "pending_ids (stop s) = {}" using Some by (simp add: stop_def MCPClient_stop_def pending_ids_def)
  have m: "messageId (client (stop s)) = messageId (client s)" "request_ids (stop s) = request_ids s"
    "pendingRequests (client (stop s)) = []"
    using Some by (simp_all add: stop_def MCPClient_stop_def request_ids_def)
  show ?thesis using b unfolding bookkeeping_def r p m assigned_ids_def
    by (auto simp: pending_ids_def)
qed

lemma bookkeeping_step: "bookkeeping s \<Longrightarrow> bookkeeping (step e s)"
proof (cases e)
  case (Send m p)
  assume "bookkeeping s"
  then show ?thesis using Send bookkeeping_sendRequest by (auto split: sum.splits)
next
  case (Notify m p)
  assume "bookkeeping s"
  then show ?thesis using Notify
    by (auto simp: sendNotification_def Let_def bookkeeping_def pending_ids_def removed_ids_def
        assigned_ids_def request_ids_def List.map_filter_def split: sum.splits if_splits)
next
  case Spawn
  assume "bookkeeping s"
  then show ?thesis using Spawn
    by (auto simp: spawn_def bookkeeping_def pending_ids_def removed_ids_def
        assigned_ids_def request_ids_def split: option.splits)
next
  case Exit
  assume "bookkeeping s"
  then show ?thesis using Exit
    by (auto simp: on_exit_def bookkeeping_def pending_ids_def removed_ids_def
        assigned_ids_def request_ids_def)
qed (auto simp: bookkeeping_handleMessage bookkeeping_advance bookkeeping_stop)

lemma bookkeeping_run: "bookkeeping s \<Longrightarrow> bookkeeping (run evs s)"
  by (induction evs arbitrary: s) (auto simp: bookkeeping_step)

lemma correlated_new: "correlated (new_session n)"
  by (simp add: correlated_def new_session_def new_MCPClient_def)

lemma settle_length [simp]: "length (promises (settle h out s)) = length (promises s)"
  by (simp add: settle_def)

lemma pending_delete_fields [simp]:
  "promises (pending_delete i why s) = promises s"
  "timers (pending_delete i why s) = timers s"
  "now (pending_delete i why s) = now s"
  "written (pending_delete i why s) = written s"
  "messageId (client (pending_delete i why s)) = messageId (client s)"
  "process (client (pending_delete i why s)) = process (client s)"
  "pendingRequests (client (pending_delete i why s)) = AList.delete i (pendingRequests (client s))"
  by (simp_all add: pending_delete_def)

lemma set_delete_subset: "set (AList.delete i al) \<subseteq> set al"
  by (auto simp: AList.delete_eq)

lemma correlated_pending_delete: "correlated s \<Longrightarrow> correlated (pending_delete i why s)"
  using set_delete_subset[of i "pendingRequests (client s)"]
  by (auto simp: correlated_def)

lemma correlated_settle [simp]: "correlated (settle h out s) = correlated s"
  by (simp add: correlated_def)

lemma correlated_handleMessage: "correlated s \<Longrightarrow> correlated (handleMessage msg s)"
  by (auto simp: handleMessage_def Let_def correlated_pending_delete split: option.splits)

lemma correlated_on_timeout: "correlated s \<Longrightarrow> correlated (on_timeout i h m s)"
  by (auto simp: on_timeout_def correlated_pending_delete)

lemma correlated_fire: "correlated s \<Longrightarrow> correlated (fire tms s)"
  by (induction tms s rule: fire.induct) (auto simp: correlated_on_timeout)

lemma correlated_advance: "correlated s \<Longrightarrow> correlated (advance dt s)"
proof -
  assume c: "correlated s"
  have "correlated (s\<lparr> now := t, timers := filter P (timers s) \<rparr>)" for t P
    using c by (auto simp: correlated_def distinct_map_filter)
  then show ?thesis by (simp add: advance_def Let_def correlated_fire)
qed

lemma sendRequest_Inr:
  "sendRequest method params s = Inr (h, s') \<Longrightarrow>
     h = length (promises s) \<and>
     s' = s\<lparr> client := (client s)\<lparr> messageId := Suc (messageId (client s)),
                    pendingRequests := AList.update (NumId (Suc (messageId (client s)))) (length (promises s)) (pendingRequests (client s)) \<rparr>,
                promises := promises s @ [None],
                written := written s @ [\<lparr> m_id = Some (NumId (Suc (messageId (client s)))), m_method = Some method, m_params = Some params,
                        m_result = None, m_error = None \<rparr>],
                timers := timers s @ [(now s + 30000, NumId (Suc (messageId (client s))), length (promises s), method)] \<rparr>"
  by (auto simp: sendRequest_def Let_def split: if_splits)

lemma set_update_subset: "set (AList.update k v al) \<subseteq> insert (k, v) (set al)"
  by (induction al) auto

lemma correlated_sendRequest:
  assumes "correlated s" "sendRequest method params s = Inr (h, s')"
  shows "correlated s'"
proof -
  note s' = sendRequest_Inr[OF assms(2)]
  have len: "length (promises s) = messageId (client s)" using assms(1) by (simp add: correlated_def)
  have p: "\<forall>(k, h) \<in> set (pendingRequests (client s')). k = NumId (Suc h)"
    using assms(1) set_update_subset[of "NumId (Suc (messageId (client s)))" "length (promises s)" "pendingRequests (client s)"]
    by (subst conjunct2[OF s']) (auto simp: correlated_def len)
  have t: "\<forall>tm \<in> set (timers s'). key_of tm = NumId (Suc (handle_of tm)) \<and> handle_of tm < messageId (client s')"
    using assms(1) by (subst (1 2) conjunct2[OF s']) (auto simp: correlated_def len key_of_def handle_of_def)
  have d: "distinct (map handle_of (timers s'))"
    using assms(1) by (subst conjunct2[OF s']) (auto simp: correlated_def len handle_of_def)
  have l: "length (promises s') = messageId (client s')"
    by (subst (1 2) conjunct2[OF s']) (simp add: len)
  show ?thesis using p t d l by (simp add: correlated_def)
qed

lemma correlated_stop: "correlated s \<Longrightarrow> correlated (stop s)"
  by (auto simp: correlated_def stop_def MCPClient_stop_def split: option.splits)

lemma correlated_step: "correlated s \<Longrightarrow> correlated (step e s)"
proof (cases e)
  case (Send m p)
  assume "correlated s"
  then show ?thesis using Send correlated_sendRequest by (auto split: sum.splits)
next
  case (Notify m p)
  assume "correlated s"
  then show ?thesis using Notify
    by (auto simp: sendNotification_def Let_def correlated_def split: sum.splits if_splits)
next
  case Spawn
  assume "correlated s"
  then show ?thesis using Spawn by (auto simp: spawn_def correlated_def split: option.splits)
next
  case Exit
  assume "correlated s"
  then show ?thesis using Exit by (auto simp: on_exit_def correlated_def)
qed (auto simp: correlated_handleMessage correlated_advance correlated_stop)

lemma correlated_run: "correlated s \<Longrightarrow> correlated (run evs s)"
  by (induction evs arbitrary: s) (auto simp: correlated_step)

lemma settle_other: "h' \<noteq> h \<Longrightarrow> promises (settle h' out s) ! h = promises s ! h"
  by (simp add: settle_def)

lemma settle_this:
  "h < length (promises s) \<Longrightarrow> promises s ! h = None \<Longrightarrow> promises (settle h out s) ! h = Some out"
  by (simp add: settle_def)

lemma settle_settled: "promises s ! h = Some v \<Longrightarrow> promises (settle h' out s) ! h = Some v"
  by (cases "h' = h") (auto simp: settle_def)

lemma map_of_delete_other: "k \<noteq> i \<Longrightarrow> map_of (AList.delete k al) i = map_of al i"
  by (simp add: AList.delete_conv')

lemma map_of_delete_same: "map_of (AList.delete i al) i = None"
  by (metis delete_notin_dom map_of_eq_None_iff)

lemma on_timeout_other:
  assumes "k \<noteq> NumId (Suc h)" "h' \<noteq> h"
  shows "promises (on_timeout k h' m s) ! h = promises s ! h"
    and "map_of (pendingRequests (client (on_timeout k h' m s))) (NumId (Suc h))
           = map_of (pendingRequests (client s)) (NumId (Suc h))"
  using assms by (auto simp: on_timeout_def settle_other map_of_delete_other)

lemma on_timeout_fields [simp]:
  "timers (on_timeout k h m s) = timers s" "now (on_timeout k h m s) = now s"
  "length (promises (on_timeout k h m s)) = length (promises s)"
  by (simp_all add: on_timeout_def)

lemma fire_fields [simp]:
  "timers (fire tms s) = timers s" "now (fire tms s) = now s"
  "length (promises (fire tms s)) = length (promises s)"
  by (induction tms s rule: fire.induct) simp_all

lemma fire_append: "fire (xs @ ys) s = fire ys (fire xs s)"
  by (induction xs s rule: fire.induct) simp_all

lemma fire_other:
  assumes "\<forall>tm \<in> set tms. key_of tm \<noteq> NumId (Suc h) \<and> handle_of tm \<noteq> h"
  shows "promises (fire tms s) ! h = promises s ! h
       \<and> map_of (pendingRequests (client (fire tms s))) (NumId (Suc h))
           = map_of (pendingRequests (client s)) (NumId (Suc h))"
  using assms
proof (induction tms s rule: fire.induct)
  case (1 s)
  then show ?case by simp
next
  case (2 d i h' mth tms s)
  then have "i \<noteq> NumId (Suc h)" "h' \<noteq> h" by (auto simp: key_of_def handle_of_def)
  then show ?case using 2 on_timeout_other[of i h h' mth s] by auto
qed

lemma on_timeout_timed_out:
  assumes "timed_out h method s"
  shows "timed_out h method (on_timeout k h' m s)"
proof (cases "k = NumId (Suc h)")
  case True
  then show ?thesis using assms by (simp add: on_timeout_def timed_out_def)
next
  case False
  then show ?thesis using assms
    by (auto simp: on_timeout_def timed_out_def settle_settled map_of_delete_other)
qed

lemma fire_timed_out: "timed_out h method s \<Longrightarrow> timed_out h method (fire tms s)"
  by (induction tms s rule: fire.induct) (auto simp: on_timeout_timed_out)

lemma handleMessage_timed_out:
  assumes "timed_out h method s"
  shows "timed_out h method (handleMessage msg s)"
proof (cases "m_id msg = Some (NumId (Suc h))")
  case True
  then show ?thesis using assms by (simp add: handleMessage_def timed_out_def)
next
  case False
  then show ?thesis using assms
    by (auto simp: handleMessage_def timed_out_def Let_def settle_settled map_of_delete_other
        split: option.splits)
qed

lemma handleMessage_other:
  assumes "m_id msg \<noteq> Some (NumId (Suc h))"
    and "\<forall>(k, h') \<in> set (pendingRequests (client s)). k = NumId (Suc h')"
  shows "promises (handleMessage msg s) ! h = promises s ! h"
    and "map_of (pendingRequests (client (handleMessage msg s))) (NumId (Suc h))
           = map_of (pendingRequests (client s)) (NumId (Suc h))"
    and "timers (handleMessage msg s) = timers s" and "now (handleMessage msg s) = now s"
    and "length (promises (handleMessage msg s)) = length (promises s)"
proof -
  { fix i h' assume i: "m_id msg = Some i" and m: "map_of (pendingRequests (client s)) i = Some h'"
    then have "(i, h') \<in> set (pendingRequests (client s))" by (auto dest: map_of_SomeD)
    then have "i = NumId (Suc h')" using assms(2) by auto
    then have "h' \<noteq> h" "i \<noteq> NumId (Suc h)" using assms(1) i by auto }
  note other = this
  show "promises (handleMessage msg s) ! h = promises s ! h"
    using other by (auto simp: handleMessage_def Let_def settle_other split: option.splits)
  show "map_of (pendingRequests (client (handleMessage msg s))) (NumId (Suc h))
           = map_of (pendingRequests (client s)) (NumId (Suc h))"
    using other by (auto simp: handleMessage_def Let_def map_of_delete_other split: option.splits)
  show "timers (handleMessage msg s) = timers s" "now (handleMessage msg s) = now s"
    "length (promises (handleMessage msg s)) = length (promises s)"
    by (auto simp: handleMessage_def Let_def split: option.splits)
qed

lemma tracked_advance:
  assumes "tracked h method D s"
  shows "tracked h method D (advance dt s)"
proof -
  let ?t = "now s + dt"
  let ?due = "filter (is_due ?t) (timers s)"
  let ?s0 = "s\<lparr> now := ?t, timers := filter (\<lambda>tm. \<not> is_due ?t tm) (timers s) \<rparr>"
  let ?x = "(D, NumId (Suc h), h, method)"
  have adv: "advance dt s = fire ?due ?s0" by (simp add: advance_def Let_def)
  have c: "correlated s" and hl: "h < length (promises s)" and a: "awaiting h method D s"
    using assms by (simp_all add: tracked_def)
  have c': "correlated (advance dt s)" using c by (rule correlated_advance)
  have hl': "h < length (promises (advance dt s))" using hl by (simp add: adv)
  have now': "now (advance dt s) = ?t" by (simp add: adv)
  have tms: "\<forall>tm \<in> set (timers s). key_of tm = NumId (Suc (handle_of tm))"
    and dist: "distinct (map handle_of (timers s))"
    using c by (auto simp: correlated_def)
  have "awaiting h method D (advance dt s)"
  proof (cases "now s < D")
    case False
    then have "timed_out h method s" using a by (simp add: awaiting_def timed_out_def)
    then have "timed_out h method ?s0" by (simp add: timed_out_def)
    then have "timed_out h method (advance dt s)" unfolding adv by (rule fire_timed_out)
    then show ?thesis using False by (simp add: awaiting_def timed_out_def now')
  next
    case True
    then have p: "promises s ! h = None"
      and m: "map_of (pendingRequests (client s)) (NumId (Suc h)) = Some h"
      and x: "?x \<in> set (timers s)" using a by (simp_all add: awaiting_def)
    have others: "tm \<in> set (timers s) \<Longrightarrow> tm \<noteq> ?x \<Longrightarrow> key_of tm \<noteq> NumId (Suc h) \<and> handle_of tm \<noteq> h" for tm
    proof -
      assume tm: "tm \<in> set (timers s)" and ne: "tm \<noteq> ?x"
      have "handle_of tm \<noteq> h"
      proof
        assume "handle_of tm = h"
        then have "handle_of tm = handle_of ?x" by (simp add: handle_of_def)
        then have "tm = ?x" using dist tm x by (meson distinct_map inj_onD)
        then show False using ne by simp
      qed
      then show ?thesis using tms tm by auto
    qed
    show ?thesis
    proof (cases "?t < D")
      case True
      then have "?x \<notin> set ?due" by (simp add: is_due_def)
      then have nx: "?x \<notin> set ?due" .
      have "\<forall>tm \<in> set ?due. key_of tm \<noteq> NumId (Suc h) \<and> handle_of tm \<noteq> h"
      proof
        fix tm assume d: "tm \<in> set ?due"
        then have "tm \<in> set (timers s)" by simp
        moreover have "tm \<noteq> ?x" using d nx by blast
        ultimately show "key_of tm \<noteq> NumId (Suc h) \<and> handle_of tm \<noteq> h" by (rule others)
      qed
      from fire_other[OF this, of ?s0] have
        "promises (advance dt s) ! h = None"
        "map_of (pendingRequests (client (advance dt s))) (NumId (Suc h)) = Some h"
        using p m by (simp_all add: adv)
      moreover have "?x \<in> set (timers (advance dt s))" using x True by (simp add: adv is_due_def)
      ultimately show ?thesis using True by (simp add: awaiting_def now')
    next
      case False
      then have "?x \<in> set ?due" using x by (simp add: is_due_def)
      then obtain pre post where split: "?due = pre @ ?x # post" by (meson split_list)
      have "distinct (map handle_of ?due)" using dist by (simp add: distinct_map_filter)
      then have dd: "distinct ?due" by (simp add: distinct_map)
      have sub: "set pre \<union> set post \<subseteq> set (timers s) - {?x}"
      proof -
        have "set ?due \<subseteq> set (timers s)" by auto
        moreover have "?x \<notin> set pre" "?x \<notin> set post" using dd unfolding split by auto
        ultimately show ?thesis unfolding split by auto
      qed
      have pre: "\<forall>tm \<in> set pre. key_of tm \<noteq> NumId (Suc h) \<and> handle_of tm \<noteq> h"
        using sub others by blast
      let ?s1 = "fire pre ?s0"
      from fire_other[OF pre, of ?s0] have p1: "promises ?s1 ! h = None"
        and m1: "map_of (pendingRequests (client ?s1)) (NumId (Suc h)) = Some h"
        using p m by simp_all
      have hl1: "h < length (promises ?s1)" using hl by simp
      let ?s2 = "on_timeout (NumId (Suc h)) h method ?s1"
      have "timed_out h method ?s2"
        using p1 m1 hl1 by (simp add: on_timeout_def timed_out_def settle_this map_of_delete_same)
      then have "timed_out h method (fire post ?s2)" by (rule fire_timed_out)
      moreover have "advance dt s = fire post ?s2" by (simp add: adv split fire_append)
      ultimately show ?thesis using False by (simp add: awaiting_def timed_out_def now')
    qed
  qed
  then show ?thesis using c' hl' by (simp add: tracked_def)
qed

lemma tracked_step:
  assumes "tracked h method D s" "quiet_for (NumId (Suc h)) e"
  shows "tracked h method D (step e s)"
proof (cases e)
  case Spawn
  then show ?thesis using assms correlated_step[of s e]
    by (auto simp: tracked_def awaiting_def spawn_def split: option.splits)
next
  case (Send m p)
  show ?thesis
  proof (cases "sendRequest m p s")
    case (Inl err)
    then show ?thesis using assms Send by simp
  next
    case (Inr r)
    obtain h' s' where r: "r = (h', s')" by (cases r)
    note eq = sendRequest_Inr[OF Inr[unfolded r]]
    have c: "correlated s" and hl: "h < length (promises s)" and a: "awaiting h method D s"
      using assms by (simp_all add: tracked_def)
    have len: "length (promises s) = messageId (client s)" using c by (simp add: correlated_def)
    have ne: "NumId (Suc (messageId (client s))) \<noteq> NumId (Suc h)" using hl len by simp
    have "promises s' ! h = promises s ! h" using hl by (subst conjunct2[OF eq]) (simp add: nth_append)
    moreover have "map_of (pendingRequests (client s')) (NumId (Suc h)) = map_of (pendingRequests (client s)) (NumId (Suc h))"
      using ne by (subst conjunct2[OF eq]) (simp add: AList.update_conv')
    moreover have "now s' = now s" by (subst conjunct2[OF eq]) simp
    moreover have "set (timers s) \<subseteq> set (timers s')" by (subst conjunct2[OF eq]) auto
    moreover have "length (promises s) \<le> length (promises s')" by (subst conjunct2[OF eq]) simp
    ultimately have "awaiting h method D s'" "h < length (promises s')"
      using a hl by (auto simp: awaiting_def)
    moreover have "correlated s'" using c Inr r correlated_sendRequest by blast
    ultimately show ?thesis using Send Inr r by (simp add: tracked_def)
  qed
next
  case (Notify m p)
  then show ?thesis using assms correlated_step[of s e]
    by (auto simp: tracked_def awaiting_def sendNotification_def Let_def split: sum.splits if_splits)
next
  case (Receive msg)
  then have q: "m_id msg \<noteq> Some (NumId (Suc h))" using assms(2) by (simp add: quiet_for_def)
  have c: "correlated s" using assms by (simp add: tracked_def)
  then have pc: "\<forall>(k, h') \<in> set (pendingRequests (client s)). k = NumId (Suc h')"
    by (simp add: correlated_def)
  show ?thesis using assms(1) Receive correlated_handleMessage[OF c, of msg] handleMessage_other[OF q pc]
    by (simp add: tracked_def awaiting_def)
next
  case (Advance dt)
  then show ?thesis using assms tracked_advance by simp
next
  case Stop
  then show ?thesis using assms by (simp add: quiet_for_def)
next
  case Exit
  then show ?thesis using assms correlated_step[of s e]
    by (auto simp: tracked_def awaiting_def on_exit_def)
qed

lemma tracked_run:
  "tracked h method D s \<Longrightarrow> list_all (quiet_for (NumId (Suc h))) evs \<Longrightarrow> tracked h method D (run evs s)"
  by (induction evs arbitrary: s) (auto simp: tracked_step)

lemma tracked_sendRequest:
  assumes "correlated s" "sendRequest method params s = Inr (h, s1)"
  shows "tracked h method (now s + 30000) s1" "messageId (client s1) = Suc h" "now s1 = now s"
proof -
  note eq = sendRequest_Inr[OF assms(2)]
  have len: "length (promises s) = messageId (client s)" using assms(1) by (simp add: correlated_def)
  have h: "h = length (promises s)" using eq by simp
  show "messageId (client s1) = Suc h" by (subst conjunct2[OF eq]) (simp add: h len)
  show n: "now s1 = now s" by (subst conjunct2[OF eq]) simp
  have "promises s1 ! h = None" by (subst conjunct2[OF eq]) (simp add: h)
  moreover have "map_of (pendingRequests (client s1)) (NumId (Suc h)) = Some h"
    by (subst conjunct2[OF eq]) (simp add: h len AList.update_conv')
  moreover have "(now s + 30000, NumId (Suc h), h, method) \<in> set (timers s1)"
    by (subst conjunct2[OF eq]) (simp add: h len)
  moreover have "h < length (promises s1)" by (subst conjunct2[OF eq]) (simp add: h)
  moreover have "correlated s1" using assms correlated_sendRequest by blast
  ultimately show "tracked h method (now s + 30000) s1"
    by (simp add: tracked_def awaiting_def n)
qed

text \<open>
  Claim C3, as amended. A request is sent on a session reached by any run from a new
  client. As long as no message carrying the request's id arrives and \<^verbatim>\<open>stop\<close> is not
  called, whatever else happens (other requests and their responses, notifications, the
  child exiting, time passing): before 30000 ms have passed the call is unsettled and its
  entry is in the table; from 30000 ms on the call has failed with
  \<^verbatim>\<open>Request timeout for <method>\<close>, its entry is gone, and a message carrying the id
  changes nothing.
\<close>

theorem sendRequest_times_out_after_30000:
  assumes reach: "s = run evs0 (new_session n)"
    and send: "sendRequest method params s = Inr (h, s1)"
    and quiet: "list_all (quiet_for (NumId (messageId (client s1)))) evs"
  shows "if now (run evs s1) < now s1 + 30000
         then promises (run evs s1) ! h = None
              \<and> NumId (messageId (client s1)) \<in> pending_ids (run evs s1)
         else promises (run evs s1) ! h = Some (Rejected (request_timeout method))
              \<and> NumId (messageId (client s1)) \<notin> pending_ids (run evs s1)
              \<and> (\<forall>msg. m_id msg = Some (NumId (messageId (client s1)))
                    \<longrightarrow> handleMessage msg (run evs s1) = run evs s1)"
proof -
  have c: "correlated s" unfolding reach using correlated_new by (rule correlated_run)
  note t = tracked_sendRequest[OF c send]
  have "tracked h method (now s1 + 30000) (run evs s1)"
    using t quiet tracked_run[of h "method" "now s + 30000" s1 evs] by simp
  then have a: "awaiting h method (now s1 + 30000) (run evs s1)" by (simp add: tracked_def)
  show ?thesis
  proof (cases "now (run evs s1) < now s1 + 30000")
    case True
    then show ?thesis using a t(2) by (auto simp: awaiting_def intro: map_of_pending_ids)
  next
    case False
    then have p: "promises (run evs s1) ! h = Some (Rejected (request_timeout method))"
      and m: "map_of (pendingRequests (client (run evs s1))) (NumId (Suc h)) = None"
      using a by (simp_all add: awaiting_def)
    have "NumId (Suc h) \<notin> pending_ids (run evs s1)"
      using m by (simp add: pending_ids_def map_of_eq_None_iff)
    moreover have "handleMessage msg (run evs s1) = run evs s1" if "m_id msg = Some (NumId (Suc h))" for msg
      using m that by (simp add: handleMessage_def)
    ultimately show ?thesis using False p t(2) by simp
  qed
qed


text \<open>The request of a new session, 29999 ms and 30000 ms after it was sent.\<close>

theorem sendRequest_times_out_after_30000_witness:
  "sendRequest ''tools/call'' ''{}'' (run [Spawn] (new_session ''fs''))
     = Inr (0, run [Spawn, Send ''tools/call'' ''{}''] (new_session ''fs''))
   \<and> list_all (quiet_for (NumId 1)) [Advance 29999, Exit, Advance 1]
   \<and> promises (run [Spawn, Send ''tools/call'' ''{}'', Advance 29999] (new_session ''fs'')) ! 0 = None
   \<and> promises (run [Spawn, Send ''tools/call'' ''{}'', Advance 29999, Exit, Advance 1]
                  (new_session ''fs'')) ! 0
       = Some (Rejected (Error ''Request timeout for tools/call''))
   \<and> handleMessage (response_to 1)
         (run [Spawn, Send ''tools/call'' ''{}'', Advance 29999, Exit, Advance 1] (new_session ''fs''))
       = run [Spawn, Send ''tools/call'' ''{}'', Advance 29999, Exit, Advance 1] (new_session ''fs'')"
proof -
  define s where "s = run [Spawn] (new_session ''fs'')"
  define s1 where "s1 = run [Spawn, Send ''tools/call'' ''{}''] (new_session ''fs'')"
  note defs = new_session_def new_MCPClient_def spawn_def sendRequest_def can_write_def Let_def
  have send: "sendRequest ''tools/call'' ''{}'' s = Inr (0, s1)"
    unfolding s_def s1_def by (simp add: defs)
  have id1: "messageId (client s1) = 1" and now1: "now s1 = 0"
    unfolding s1_def by (simp_all add: defs)
  have q1: "list_all (quiet_for (NumId (messageId (client s1)))) [Advance 29999]"
    and q2: "list_all (quiet_for (NumId (messageId (client s1)))) [Advance 29999, Exit, Advance 1]"
    unfolding id1 by (simp_all add: quiet_for_def)
  have n1: "now (run [Advance 29999] s1) = 29999"
    and n2: "now (run [Advance 29999, Exit, Advance 1] s1) = 30000"
    by (simp_all add: now1 on_exit_def advance_def Let_def)
  have e1: "run [Spawn, Send ''tools/call'' ''{}'', Advance 29999] (new_session ''fs'')
              = run [Advance 29999] s1"
    and e2: "run [Spawn, Send ''tools/call'' ''{}'', Advance 29999, Exit, Advance 1] (new_session ''fs'')
              = run [Advance 29999, Exit, Advance 1] s1"
    unfolding s1_def by simp_all
  have m: "m_id (response_to 1) = Some (NumId (messageId (client s1)))"
    unfolding id1 by (simp add: response_to_def)
  have a: "promises (run [Advance 29999] s1) ! 0 = None"
    using sendRequest_times_out_after_30000[OF s_def send q1] unfolding n1 now1 by simp
  have b: "promises (run [Advance 29999, Exit, Advance 1] s1) ! 0
             = Some (Rejected (request_timeout ''tools/call''))
           \<and> handleMessage (response_to 1) (run [Advance 29999, Exit, Advance 1] s1)
             = run [Advance 29999, Exit, Advance 1] s1"
    using sendRequest_times_out_after_30000[OF s_def send q2] m unfolding n2 now1 by simp
  have q: "list_all (quiet_for (NumId 1)) [Advance 29999, Exit, Advance 1]"
    using q2 unfolding id1 .
  show ?thesis
    unfolding e1 e2 using send a b q unfolding s_def s1_def by (simp add: request_timeout_def)
qed

text \<open>The claim fails when the session is stopped while the request is waiting:
  \<^verbatim>\<open>stop\<close> clears the table, the timer finds no entry, and the call is never
  settled.\<close>

theorem stop_leaves_request_unsettled:
  "promises (run [Spawn, Send ''tools/call'' ''{}'', Stop, Advance 30000] (new_session ''fs'')) = [None]
   \<and> pendingRequests (client (run [Spawn, Send ''tools/call'' ''{}'', Stop, Advance 30000]
                                (new_session ''fs''))) = []"
  by (simp add: new_session_def new_MCPClient_def spawn_def sendRequest_def can_write_def Let_def
      stop_def MCPClient_stop_def advance_def is_due_def on_timeout_def)

lemma settle_pending_ids [simp]: "pending_ids (settle h out s) = pending_ids s"
  by (simp add: pending_ids_def)

lemma on_timeout_pending_ids: "pending_ids (on_timeout i h m s) = pending_ids s - {i}"
proof (cases "map_of (pendingRequests (client s)) i")
  case None
  then have "i \<notin> pending_ids s" by (simp add: pending_ids_def map_of_eq_None_iff)
  then show ?thesis using None by (simp add: on_timeout_def)
next
  case (Some a)
  then show ?thesis by (simp add: on_timeout_def pending_delete_ids)
qed

lemma fire_pending_ids: "pending_ids (fire tms s) = pending_ids s - key_of ` set tms"
  by (induction tms s rule: fire.induct) (auto simp: on_timeout_pending_ids key_of_def)

lemma advance_pending_ids:
  "pending_ids (advance dt s) = pending_ids s - key_of ` {tm \<in> set (timers s). fst tm \<le> now s + dt}"
proof -
  have "pending_ids (s\<lparr> now := t, timers := r \<rparr>) = pending_ids s" for t r
    by (simp add: pending_ids_def)
  then show ?thesis by (simp add: advance_def Let_def fire_pending_ids is_due_def)
qed

lemma advance_fields [simp]:
  "now (advance dt s) = now s + dt"
  "timers (advance dt s) = filter (\<lambda>tm. \<not> fst tm \<le> now s + dt) (timers s)"
  by (simp_all add: advance_def Let_def is_due_def)

lemma expiring_new: "expiring (new_session n)"
  by (simp add: expiring_def pending_ids_def new_session_def new_MCPClient_def)

lemma expiring_advance:
  assumes "expiring s"
  shows "expiring (advance dt s)"
  unfolding expiring_def
proof
  fix k assume k: "k \<in> pending_ids (advance dt s)"
  then have kp: "k \<in> pending_ids s" and nd: "k \<notin> key_of ` {tm \<in> set (timers s). fst tm \<le> now s + dt}"
    by (simp_all add: advance_pending_ids)
  from assms kp obtain tm where tm: "tm \<in> set (timers s)" "key_of tm = k" "fst tm \<le> now s + 30000"
    by (auto simp: expiring_def)
  then have "\<not> fst tm \<le> now s + dt" using nd by auto
  then have "tm \<in> set (timers (advance dt s))" using tm(1) by simp
  moreover have "fst tm \<le> now (advance dt s) + 30000" using tm(3) by simp
  ultimately show "\<exists>tm \<in> set (timers (advance dt s)). key_of tm = k \<and> fst tm \<le> now (advance dt s) + 30000"
    using tm(2) by blast
qed

lemma expiring_shrink:
  assumes "expiring s" "pending_ids s' \<subseteq> pending_ids s" "timers s' = timers s" "now s' = now s"
  shows "expiring s'"
  using assms unfolding expiring_def by auto

lemma handleMessage_pending_ids: "pending_ids (handleMessage msg s) \<subseteq> pending_ids s"
  by (auto simp: handleMessage_def Let_def pending_ids_def AList.delete_eq split: option.splits)

lemma handleMessage_frame [simp]:
  "timers (handleMessage msg s) = timers s" "now (handleMessage msg s) = now s"
  by (auto simp: handleMessage_def Let_def split: option.splits)

lemma expiring_step: "expiring s \<Longrightarrow> expiring (step e s)"
proof (cases e)
  case (Send m p)
  assume ex: "expiring s"
  show ?thesis
  proof (cases "sendRequest m p s")
    case (Inl err)
    then show ?thesis using ex Send by simp
  next
    case (Inr r)
    obtain h' s' where r: "r = (h', s')" by (cases r)
    note eq = sendRequest_Inr[OF Inr[unfolded r]]
    let ?i = "NumId (Suc (messageId (client s)))"
    have p: "pending_ids s' = insert ?i (pending_ids s)"
      by (subst conjunct2[OF eq]) (auto simp: pending_ids_def AList.dom_update)
    have t: "timers s' = timers s @ [(now s + 30000, ?i, length (promises s), m)]"
      by (subst conjunct2[OF eq]) simp
    have n: "now s' = now s" by (subst conjunct2[OF eq]) simp
    have "expiring s'" unfolding expiring_def p t n using ex
      by (auto simp: expiring_def key_of_def)
    then show ?thesis using Send Inr r by simp
  qed
next
  case (Receive msg)
  assume "expiring s"
  then show ?thesis using Receive handleMessage_pending_ids[of msg s]
    by (auto intro: expiring_shrink)
next
  case (Advance dt)
  assume "expiring s"
  then show ?thesis using Advance by (simp add: expiring_advance)
next
  case Stop
  assume "expiring s"
  then show ?thesis using Stop
    by (auto simp: expiring_def pending_ids_def stop_def MCPClient_stop_def split: option.splits)
next
  case Spawn
  assume "expiring s"
  then show ?thesis using Spawn
    by (auto simp: expiring_def pending_ids_def spawn_def split: option.splits)
next
  case Exit
  assume "expiring s"
  then show ?thesis using Exit by (auto simp: expiring_def pending_ids_def on_exit_def)
next
  case (Notify m p)
  assume "expiring s"
  then show ?thesis using Notify
    by (auto simp: expiring_def pending_ids_def sendNotification_def Let_def split: if_splits)
qed

lemma expiring_run: "expiring s \<Longrightarrow> expiring (run evs s)"
  by (induction evs arbitrary: s) (auto simp: expiring_step)

lemma expiring_cleared:
  assumes "expiring s"
  shows "pendingRequests (client (advance 30000 s)) = []"
proof -
  have "pending_ids (advance 30000 s) = {}"
    using assms by (auto simp: advance_pending_ids expiring_def)
  then show ?thesis by (simp add: pending_ids_def)
qed

lemma stop_free_step: "stop_free s \<Longrightarrow> e \<noteq> Stop \<Longrightarrow> stop_free (step e s)"
proof (cases e)
  case (Advance dt)
  assume sf: "stop_free s"
  have f: "stop_free s' \<Longrightarrow> stop_free (fire tms s')" for tms s'
    by (induction tms s' rule: fire.induct)
       (auto simp: stop_free_def on_timeout_def pending_delete_def settle_def)
  have "stop_free (s\<lparr> now := t, timers := tms \<rparr>)" for t tms using sf by (simp add: stop_free_def)
  then show ?thesis using Advance by (simp add: advance_def Let_def f)
qed (auto simp: stop_free_def spawn_def on_exit_def sendRequest_def sendNotification_def Let_def
      handleMessage_def pending_delete_def settle_def split: option.splits if_splits)

lemma stop_free_run: "stop_free s \<Longrightarrow> Stop \<notin> set evs \<Longrightarrow> stop_free (run evs s)"
  by (induction evs arbitrary: s) (auto simp: stop_free_step)

text \<open>
  Claim C9, as amended. In every session reached by a run from a new client: the requests
  written carry the ids 1, 2, ... up to \<^verbatim>\<open>messageId\<close>, in the order sent, so they are
  strictly increasing and none is used twice; the table holds an id at most once, and the
  id the next request will get is not in it; an id is deleted from the table at most
  once; every id handed out is either in the table or has been deleted; a deletion is
  caused by a message carrying the id or by the timeout unless \<^verbatim>\<open>stop\<close> was called,
  which clears the table; and 30000 ms later the table holds none of the entries it
  holds now.
\<close>

theorem request_ids_and_pending_entries:
  assumes "s = run evs (new_session n)"
  shows "request_ids s = map NumId [1..<Suc (messageId (client s))]
       \<and> distinct (map fst (pendingRequests (client s)))
       \<and> NumId (Suc (messageId (client s))) \<notin> pending_ids s
       \<and> distinct (map fst (removed s))
       \<and> pending_ids s \<inter> set (map fst (removed s)) = {}
       \<and> pending_ids s \<union> set (map fst (removed s)) = NumId ` {1..messageId (client s)}
       \<and> (Stop \<notin> set evs \<longrightarrow> ByStop \<notin> snd ` set (removed s))
       \<and> pendingRequests (client (advance 30000 s)) = []"
proof -
  have b: "bookkeeping s" unfolding assms using bookkeeping_new by (rule bookkeeping_run)
  have e: "expiring s" unfolding assms using expiring_new by (rule expiring_run)
  have f: "Stop \<notin> set evs \<Longrightarrow> stop_free s" unfolding assms
    by (rule stop_free_run) (simp_all add: stop_free_def new_session_def)
  have "NumId (Suc (messageId (client s))) \<notin> assigned_ids s" by (auto simp: assigned_ids_def)
  then have "NumId (Suc (messageId (client s))) \<notin> pending_ids s"
    using b by (auto simp: bookkeeping_def)
  then show ?thesis using b f expiring_cleared[OF e]
    by (simp add: bookkeeping_def removed_ids_def assigned_ids_def stop_free_def)
qed


text \<open>Two requests, the first answered and the second timing out.\<close>

theorem request_ids_and_pending_entries_witness:
  "Stop \<notin> set two_requests
   \<and> request_ids (run two_requests (new_session ''fs'')) = [NumId 1, NumId 2]
   \<and> removed (run two_requests (new_session ''fs'')) = [(NumId 1, ByMessage), (NumId 2, ByTimeout)]
   \<and> ByStop \<notin> snd ` set (removed (run two_requests (new_session ''fs'')))"
proof -
  have a: "Stop \<notin> set two_requests" by (simp add: two_requests_def)
  have b: "removed (run two_requests (new_session ''fs'')) = [(NumId 1, ByMessage), (NumId 2, ByTimeout)]"
    by (simp add: two_requests_def response_to_def new_session_def new_MCPClient_def spawn_def
        sendRequest_def can_write_def Let_def handleMessage_def pending_delete_def settle_def
        advance_def is_due_def on_timeout_def request_timeout_def)
  have c: "request_ids (run two_requests (new_session ''fs'')) = [NumId 1, NumId 2]"
    by (simp add: two_requests_def response_to_def new_session_def new_MCPClient_def spawn_def
        sendRequest_def can_write_def Let_def handleMessage_def pending_delete_def settle_def
        advance_def is_due_def on_timeout_def request_timeout_def request_ids_def
        List.map_filter_def)
  show ?thesis
    using request_ids_and_pending_entries[OF refl, of two_requests "''fs''"] a b c by simp
qed

text \<open>The claim fails when the session is stopped: the entry of the waiting request is
  deleted by \<^verbatim>\<open>stop\<close>, not by a message or the timeout.\<close>

theorem stop_removes_pending_entry:
  "removed (run [Spawn, Send ''tools/call'' ''{}'', Stop] (new_session ''fs'')) = [(NumId 1, ByStop)]"
  by (simp add: new_session_def new_MCPClient_def spawn_def sendRequest_def can_write_def Let_def
      stop_def MCPClient_stop_def)


subsection \<open>Notifications\<close>

text \<open>
  Claim C8, as amended. Over HTTP \<^verbatim>\<open>sendNotification\<close> returns normally whatever
  \<^verbatim>\<open>fetch\<close> does, and a rejected \<^verbatim>\<open>fetch\<close> is logged. Over a child process it
  throws \<^verbatim>\<open>MCP server <name> is not running\<close> when there is no process or the process
  has no standard input; otherwise it writes the notification and returns normally.
\<close>

theorem sendNotification_failures:
  "fst (http_sendNotification outcome c) = Inr ()
   \<and> snd (http_sendNotification (FetchRejected e) c) = [e]
   \<and> sendNotification method params s
       = (if can_write (client s)
          then Inr (s\<lparr> written := written s @
                        [\<lparr> m_id = None, m_method = Some method, m_params = Some params,
                           m_result = None, m_error = None \<rparr>] \<rparr>)
          else Inl (Error (''MCP server '' @ config_name (client s) @ '' is not running'')))"
  by (simp add: http_sendNotification_def sendNotification_def not_running_def Let_def
      split: fetch_outcome.splits)

text \<open>The claim fails for the process transport: after the child has exited, the
  notification throws.\<close>

theorem sendNotification_throws_after_exit:
  "sendNotification ''notifications/initialized'' ''{}'' (run [Spawn, Exit] (new_session ''fs''))
     = Inl (Error ''MCP server fs is not running'')"
  by (simp add: new_session_def new_MCPClient_def spawn_def on_exit_def sendNotification_def
      can_write_def not_running_def)

section \<open>Properties of the loader\<close>

subsection \<open>The effect of each part of a load\<close>

lemma constructed_from_mono:
  "set xs \<subseteq> set ys \<Longrightarrow> constructed_from xs e \<Longrightarrow> constructed_from ys e"
  by (cases "(xs, e)" rule: constructed_from.cases) auto

lemma constructed_from_mono_list:
  "set xs \<subseteq> set ys \<Longrightarrow> list_all (constructed_from xs) evs \<Longrightarrow> list_all (constructed_from ys) evs"
  by (induction evs) (auto intro: constructed_from_mono)

lemma truthy_Some: "truthy s \<Longrightarrow> s = Some (the s) \<and> the s \<noteq> []"
  by (cases s) (auto simp: truthy_def)

lemma addServer_present:
  "map_of clients (sc_name config) \<noteq> None \<Longrightarrow> addServer w config (clients, hp) = (Inr (), clients, hp)"
  by (simp add: addServer_def)

lemma addServer_cases:
  assumes "addServer w config (clients, hp) = (r, clients', hp')"
  obtains
    (present) "map_of clients (sc_name config) \<noteq> None" "r = Inr ()" "clients' = clients" "hp' = hp"
  | (failed) f c where "map_of clients (sc_name config) = None" "r = Inl f" "clients' = clients"
      "MCPClient_start (stdio_server w (allocated hp)) (new_MCPClient (sc_name config)) = (Inl f, c)"
      "hp' = hp\<lparr> allocated := allocated hp + 1,
                trace := trace hp @ [Constructed (allocated hp) Stdio (sc_name config) (sc_command config),
                                     Failed (allocated hp) (error_of f)] \<rparr>"
  | (started) c where "map_of clients (sc_name config) = None" "r = Inr ()"
      "MCPClient_start (stdio_server w (allocated hp)) (new_MCPClient (sc_name config)) = (Inr (), c)"
      "clients' = AList.update (sc_name config) (allocated hp, c) clients"
      "hp' = hp\<lparr> allocated := allocated hp + 1,
                trace := trace hp @ [Constructed (allocated hp) Stdio (sc_name config) (sc_command config),
                                     Ready (allocated hp) (tools c)] \<rparr>"
proof (cases "map_of clients (sc_name config) = None")
  case False
  then have "addServer w config (clients, hp) = (Inr (), clients, hp)" by (rule addServer_present)
  then have "r = Inr ()" "clients' = clients" "hp' = hp" using assms by simp_all
  then show ?thesis using False by (rule present[rotated])
next
  case True
  obtain r0 c where st: "MCPClient_start (stdio_server w (allocated hp)) (new_MCPClient (sc_name config)) = (r0, c)"
    by (cases "MCPClient_start (stdio_server w (allocated hp)) (new_MCPClient (sc_name config))")
  show ?thesis
  proof (cases r0)
    case (Inl f)
    have "addServer w config (clients, hp) =
            (Inl f, clients, hp\<lparr> allocated := allocated hp + 1,
                trace := trace hp @ [Constructed (allocated hp) Stdio (sc_name config) (sc_command config),
                                     Failed (allocated hp) (error_of f)] \<rparr>)"
      using True st Inl by (simp add: addServer_def Let_def)
    then have "r = Inl f" "clients' = clients"
      "hp' = hp\<lparr> allocated := allocated hp + 1,
                trace := trace hp @ [Constructed (allocated hp) Stdio (sc_name config) (sc_command config),
                                     Failed (allocated hp) (error_of f)] \<rparr>"
      using assms by simp_all
    then show ?thesis using True st Inl failed[of f c] by blast
  next
    case (Inr u)
    have "addServer w config (clients, hp) =
            (Inr (), AList.update (sc_name config) (allocated hp, c) clients,
             hp\<lparr> allocated := allocated hp + 1,
                trace := trace hp @ [Constructed (allocated hp) Stdio (sc_name config) (sc_command config),
                                     Ready (allocated hp) (tools c)] \<rparr>)"
      using True st Inr by (simp add: addServer_def Let_def)
    then have "r = Inr ()" "clients' = AList.update (sc_name config) (allocated hp, c) clients"
      "hp' = hp\<lparr> allocated := allocated hp + 1,
                trace := trace hp @ [Constructed (allocated hp) Stdio (sc_name config) (sc_command config),
                                     Ready (allocated hp) (tools c)] \<rparr>"
      using assms by simp_all
    then show ?thesis using True st Inr started[of c] by simp
  qed
qed

lemma start_stdio_servers_trace:
  assumes "start_stdio_servers w servers (clients, hp) = (r, clients', hp')"
    and "\<forall>c \<in> set servers. transport c = Stdio"
  shows "\<exists>evs. trace hp' = trace hp @ evs \<and> list_all (constructed_from servers) evs
           \<and> list_all (Not \<circ> is_Stopped) evs
           \<and> allocated hp \<le> allocated hp'
           \<and> (list_all (Not \<circ> is_Failed) evs \<longrightarrow> r = Inr ())"
  using assms
proof (induction servers arbitrary: clients hp)
  case Nil
  then show ?case by auto
next
  case (Cons server rest)
  have rest_tr: "\<forall>c \<in> set rest. transport c = Stdio" using Cons.prems(2) by simp
  have mono: "list_all (constructed_from rest) evs \<Longrightarrow> list_all (constructed_from (server # rest)) evs" for evs
    by (induction evs) (auto intro: constructed_from_mono[of rest "server # rest"])
  show ?case
  proof (cases "truthy (command server)")
    case False
    then have "start_stdio_servers w rest (clients, hp) = (r, clients', hp')"
      using Cons.prems(1) by simp
    from Cons.IH[OF this rest_tr] show ?thesis using mono by blast
  next
    case True
    obtain r1 c1 h1 where add: "addServer w (stdio_config_of server) (clients, hp) = (r1, c1, h1)"
      by (cases "addServer w (stdio_config_of server) (clients, hp)")
    have tr: "transport server = Stdio" using Cons.prems(2) by simp
    have cmd: "command server = Some (the (command server))" "the (command server) \<noteq> []"
      using truthy_Some[OF True] by simp_all
    have con: "constructed_from (server # rest) (Constructed obj Stdio (name server) (the (command server)))" for obj
      using tr cmd by auto
    from add show ?thesis
    proof (cases rule: addServer_cases)
      case present
      then have "start_stdio_servers w rest (clients, hp) = (r, clients', hp')"
        using Cons.prems(1) True add by simp
      from Cons.IH[OF this rest_tr] show ?thesis using mono by blast
    next
      case (failed e c)
      then have "r = Inl e" "hp' = h1" using Cons.prems(1) True add by simp_all
      then show ?thesis using failed con by (simp add: stdio_config_of_def)
    next
      case (started c)
      then have "start_stdio_servers w rest (c1, h1) = (r, clients', hp')"
        using Cons.prems(1) True add by simp
      from Cons.IH[OF this rest_tr] obtain evs where
        evs: "trace hp' = trace h1 @ evs" "list_all (constructed_from rest) evs"
          "list_all (Not \<circ> is_Stopped) evs" "allocated h1 \<le> allocated hp'"
          "list_all (Not \<circ> is_Failed) evs \<longrightarrow> r = Inr ()" by blast
      let ?new = "[Constructed (allocated hp) Stdio (name server) (the (command server)), Ready (allocated hp) (tools c)]"
      have "trace hp' = trace hp @ (?new @ evs)" using evs(1) started by (simp add: stdio_config_of_def)
      moreover have "list_all (constructed_from (server # rest)) (?new @ evs)"
        using mono[OF evs(2)] con by simp
      moreover have "allocated hp \<le> allocated hp'" using evs(4) started by simp
      moreover have "list_all (Not \<circ> is_Stopped) (?new @ evs)" using evs(3) by simp
      moreover have "list_all (Not \<circ> is_Failed) (?new @ evs) \<longrightarrow> r = Inr ()"
        using evs(5) by simp
      ultimately show ?thesis by blast
    qed
  qed
qed

lemma load_http_server_cases:
  assumes "load_http_server w server (t, st) = (t', st')"
  obtains
    (skipped) "\<not> truthy (url server)" "t' = t" "st' = st"
  | (cached) oc where "truthy (url server)" "map_of (globalHTTPClients st) (name server) = Some oc"
      "t' = assign_http_tools w oc t" "st' = st"
  | (failed) e c where "truthy (url server)" "map_of (globalHTTPClients st) (name server) = None"
      "HTTPMCPClient_start (http_server w (allocated (heap st))) (new_HTTPMCPClient (name server)) = (Inl e, c)"
      "t' = t"
      "st' = st\<lparr> heap := (heap st)\<lparr> allocated := allocated (heap st) + 1,
                   trace := trace (heap st) @
                     [Constructed (allocated (heap st)) Http (name server) (the (url server)),
                      Failed (allocated (heap st)) e] \<rparr> \<rparr>"
  | (started) c where "truthy (url server)" "map_of (globalHTTPClients st) (name server) = None"
      "HTTPMCPClient_start (http_server w (allocated (heap st))) (new_HTTPMCPClient (name server)) = (Inr (), c)"
      "t' = assign_http_tools w (allocated (heap st), c) t"
      "st' = st\<lparr> globalHTTPClients := AList.update (name server) (allocated (heap st), c) (globalHTTPClients st),
                 heap := (heap st)\<lparr> allocated := allocated (heap st) + 1,
                   trace := trace (heap st) @
                     [Constructed (allocated (heap st)) Http (name server) (the (url server)),
                      Ready (allocated (heap st)) (h_tools c)] \<rparr> \<rparr>"
proof (cases "truthy (url server)")
  case False
  then have "load_http_server w server (t, st) = (t, st)" by (simp add: load_http_server_def)
  then have "t' = t" "st' = st" using assms by simp_all
  then show ?thesis using False skipped by blast
next
  case True
  show ?thesis
  proof (cases "map_of (globalHTTPClients st) (name server)")
    case (Some oc)
    then have "load_http_server w server (t, st) = (assign_http_tools w oc t, st)"
      using True by (simp add: load_http_server_def)
    then have "t' = assign_http_tools w oc t" "st' = st" using assms by simp_all
    then show ?thesis using True Some cached by blast
  next
    case None
    obtain r0 c where st: "HTTPMCPClient_start (http_server w (allocated (heap st))) (new_HTTPMCPClient (name server)) = (r0, c)"
      by (cases "HTTPMCPClient_start (http_server w (allocated (heap st))) (new_HTTPMCPClient (name server))")
    show ?thesis
    proof (cases r0)
      case (Inl e)
      have "load_http_server w server (t, st) =
          (t, st\<lparr> heap := (heap st)\<lparr> allocated := allocated (heap st) + 1,
                   trace := trace (heap st) @
                     [Constructed (allocated (heap st)) Http (name server) (the (url server)),
                      Failed (allocated (heap st)) e] \<rparr> \<rparr>)"
        using True None st Inl by (simp add: load_http_server_def Let_def)
      then have "t' = t" "st' = st\<lparr> heap := (heap st)\<lparr> allocated := allocated (heap st) + 1,
                   trace := trace (heap st) @
                     [Constructed (allocated (heap st)) Http (name server) (the (url server)),
                      Failed (allocated (heap st)) e] \<rparr> \<rparr>" using assms by simp_all
      then show ?thesis using True None st Inl failed[of e c] by blast
    next
      case (Inr u)
      have "load_http_server w server (t, st) =
          (assign_http_tools w (allocated (heap st), c) t,
           st\<lparr> globalHTTPClients := AList.update (name server) (allocated (heap st), c) (globalHTTPClients st),
                 heap := (heap st)\<lparr> allocated := allocated (heap st) + 1,
                   trace := trace (heap st) @
                     [Constructed (allocated (heap st)) Http (name server) (the (url server)),
                      Ready (allocated (heap st)) (h_tools c)] \<rparr> \<rparr>)"
        using True None st Inr by (simp add: load_http_server_def Let_def)
      then have "t' = assign_http_tools w (allocated (heap st), c) t"
        "st' = st\<lparr> globalHTTPClients := AList.update (name server) (allocated (heap st), c) (globalHTTPClients st),
                 heap := (heap st)\<lparr> allocated := allocated (heap st) + 1,
                   trace := trace (heap st) @
                     [Constructed (allocated (heap st)) Http (name server) (the (url server)),
                      Ready (allocated (heap st)) (h_tools c)] \<rparr> \<rparr>" using assms by simp_all
      then show ?thesis using True None st Inr started[of c] by simp
    qed
  qed
qed

lemma load_http_server_effect:
  assumes "load_http_server w server (t, st) = (t', st')" "transport server = Http"
  shows "\<exists>evs. http_effect [server] st st' evs"
  using assms(1)
proof (cases rule: load_http_server_cases)
  case skipped
  then have "http_effect [server] st st' []" by (simp add: http_effect_def)
  then show ?thesis ..
next
  case (cached oc)
  then have "http_effect [server] st st' []" by (simp add: http_effect_def)
  then show ?thesis ..
next
  case (failed e c)
  have "http_effect [server] st st'
          [Constructed (allocated (heap st)) Http (name server) (the (url server)), Failed (allocated (heap st)) e]"
    using failed assms(2) truthy_Some[of "url server"] by (simp add: http_effect_def)
  then show ?thesis ..
next
  case (started c)
  have "http_effect [server] st st'
          [Constructed (allocated (heap st)) Http (name server) (the (url server)), Ready (allocated (heap st)) (h_tools c)]"
    using started assms(2) truthy_Some[of "url server"]
    by (auto simp: http_effect_def AList.update_conv')
  then show ?thesis ..
qed

lemma http_effect_trans:
  assumes "http_effect [server] st st1 evs1" "http_effect rest st1 st' evs2"
  shows "http_effect (server # rest) st st' (evs1 @ evs2)"
proof -
  have a: "list_all (constructed_from (server # rest)) evs1"
    using assms(1) constructed_from_mono_list[of "[server]" "server # rest" evs1] by (simp add: http_effect_def)
  have b: "list_all (constructed_from (server # rest)) evs2"
    using assms(2) constructed_from_mono_list[of rest "server # rest" evs2] by (auto simp: http_effect_def)
  show ?thesis using assms a b unfolding http_effect_def by (simp; blast)
qed

lemma load_http_effect:
  assumes "load_http w servers (t, st) = (t', st')" "\<forall>c \<in> set servers. transport c = Http"
  shows "\<exists>evs. http_effect servers st st' evs"
  using assms
proof (induction servers arbitrary: t st)
  case Nil
  then have "http_effect [] st st' []" by (simp add: http_effect_def)
  then show ?case ..
next
  case (Cons server rest)
  obtain t1 st1 where step: "load_http_server w server (t, st) = (t1, st1)"
    by (cases "load_http_server w server (t, st)")
  then have rest: "load_http w rest (t1, st1) = (t', st')" using Cons.prems(1) by simp
  from load_http_server_effect[OF step] Cons.prems(2) obtain evs1 where e1: "http_effect [server] st st1 evs1"
    by auto
  from Cons.IH[OF rest] Cons.prems(2) obtain evs2 where e2: "http_effect rest st1 st' evs2" by auto
  from http_effect_trans[OF e1 e2] show ?case ..
qed

lemma getAllTools_Nil [simp]: "getAllTools inherited [] = Inr []"
  by (simp add: getAllTools_def)

lemma object_assign_Nil [simp]: "object_assign t [] = t"
  by (simp add: object_assign_def)

lemma manager_tools_clients:
  "manager_tools w st = getAllTools (zod_inherited w) (manager_clients st)"
  by (simp add: manager_tools_def manager_clients_def split: option.splits)

lemma restart_manager_effect:
  assumes "restart_manager w servers st = (r, st')" "\<forall>c \<in> set servers. transport c = Stdio"
  shows "\<exists>evs. stdio_effect servers st r st' evs"
proof -
  define hp where "hp = (case globalMCPManager st of None \<Rightarrow> heap st
                         | Some clients \<Rightarrow> snd (stopAll (clients, heap st)))"
  have hp: "trace hp = trace (heap st) @ stop_events (manager_clients st)" "allocated hp = allocated (heap st)"
    by (auto simp: hp_def manager_clients_def stopAll_def stop_events_def split: option.splits)
  obtain r0 cl hp' where run: "start_stdio_servers w servers ([], hp) = (r0, cl, hp')"
    by (cases "start_stdio_servers w servers ([], hp)")
  from start_stdio_servers_trace[OF run assms(2)] obtain evs where
    evs: "trace hp' = trace hp @ evs" "list_all (constructed_from servers) evs"
      "list_all (Not \<circ> is_Stopped) evs" "allocated hp \<le> allocated hp'"
      "list_all (Not \<circ> is_Failed) evs \<longrightarrow> r0 = Inr ()" by blast
  have res: "(r, st') = (case r0 of
                Inl e \<Rightarrow> (Inl e, st\<lparr> globalMCPManager := Some cl, heap := hp' \<rparr>)
              | Inr u \<Rightarrow> (Inr (), st\<lparr> globalMCPManager := Some cl, heap := hp',
                          currentServerConfigs := Some (configHash servers) \<rparr>))"
  proof (cases r0)
    case (Inl e)
    then show ?thesis
      using assms(1) run unfolding restart_manager_def Let_def hp_def[symmetric] by auto
  next
    case (Inr u)
    then show ?thesis
      using assms(1) run unfolding restart_manager_def Let_def hp_def[symmetric] by auto
  qed
  have "stdio_effect servers st r st' evs"
    using res evs hp by (cases r0) (auto simp: stdio_effect_def)
  then show ?thesis ..
qed

lemma load_stdio_cases:
  assumes "load_stdio w isServerless servers (t, st) = (r, st')"
  obtains
    (skipped) "servers = [] \<or> isServerless" "r = Inr t" "st' = st"
  | (unchanged) "servers \<noteq> []" "\<not> isServerless" "currentServerConfigs st = Some (configHash servers)"
      "r = assign_stdio_tools w st t" "st' = st"
  | (restart_failed) f where "servers \<noteq> []" "\<not> isServerless"
      "currentServerConfigs st \<noteq> Some (configHash servers)"
      "restart_manager w servers st = (Inl f, st')" "r = Inl f"
  | (restarted) "servers \<noteq> []" "\<not> isServerless"
      "currentServerConfigs st \<noteq> Some (configHash servers)"
      "restart_manager w servers st = (Inr (), st')"
      "r = assign_stdio_tools w st' t"
proof (cases "servers = [] \<or> isServerless")
  case True
  then have "load_stdio w isServerless servers (t, st) = (Inr t, st)" by (auto simp: load_stdio_def)
  then have "r = Inr t" "st' = st" using assms by simp_all
  then show ?thesis using True skipped by blast
next
  case False
  show ?thesis
  proof (cases "currentServerConfigs st = Some (configHash servers)")
    case True
    then have "load_stdio w isServerless servers (t, st) = (assign_stdio_tools w st t, st)"
      using False by (simp add: load_stdio_def)
    then have "r = assign_stdio_tools w st t" "st' = st"
      using assms by simp_all
    then show ?thesis using True False unchanged by blast
  next
    case ne: False
    obtain r0 s0 where rm: "restart_manager w servers st = (r0, s0)"
      by (cases "restart_manager w servers st")
    show ?thesis
    proof (cases r0)
      case (Inl f)
      then have "load_stdio w isServerless servers (t, st) = (Inl f, s0)"
        using False ne rm by (auto simp: load_stdio_def)
      then have "r = Inl f" "s0 = st'" using assms by simp_all
      then show ?thesis using False ne rm Inl restart_failed[of f] by blast
    next
      case (Inr u)
      then have "load_stdio w isServerless servers (t, st) = (assign_stdio_tools w s0 t, s0)"
        using False ne rm by (auto simp: load_stdio_def)
      then have "r = assign_stdio_tools w s0 t" "s0 = st'"
        using assms by simp_all
      then show ?thesis using False ne rm Inr restarted by (cases u) blast
    qed
  qed
qed

lemma stop_events_constructed: "list_all (constructed_from servers) (stop_events clients)"
  by (induction clients) (auto simp: stop_events_def)

lemma load_stdio_effect:
  assumes "load_stdio w isServerless servers (t, st) = (r, st')" "\<forall>c \<in> set servers. transport c = Stdio"
  shows "\<exists>evs. load_effect servers st st' evs"
  using assms(1)
proof (cases rule: load_stdio_cases)
  case skipped
  then have "load_effect servers st st' []" by (simp add: load_effect_def)
  then show ?thesis ..
next
  case unchanged
  then have "load_effect servers st st' []" by (simp add: load_effect_def)
  then show ?thesis ..
next
  case (restart_failed e)
  from restart_manager_effect[OF restart_failed(4) assms(2)] obtain evs where
    "stdio_effect servers st (Inl e) st' evs" ..
  then have "load_effect servers st st' (stop_events (manager_clients st) @ evs)"
    by (simp add: stdio_effect_def load_effect_def stop_events_constructed)
  then show ?thesis ..
next
  case restarted
  from restart_manager_effect[OF restarted(4) assms(2)] obtain evs where
    "stdio_effect servers st (Inr ()) st' evs" ..
  then have "load_effect servers st st' (stop_events (manager_clients st) @ evs)"
    by (simp add: stdio_effect_def load_effect_def stop_events_constructed)
  then show ?thesis ..
qed

lemma loadMCPTools_try_cases:
  assumes "loadMCPTools_try w isServerless servers st = (r, st')"
  obtains
    (failed) e where "load_stdio w isServerless (filter (\<lambda>s. transport s = Stdio) servers) ([], st) = (Inl e, st')"
      "r = Inl e"
  | (loaded) t sa t' where
      "load_stdio w isServerless (filter (\<lambda>s. transport s = Stdio) servers) ([], st) = (Inr t, sa)"
      "load_http w (filter (\<lambda>s. transport s = Http) servers) (t, sa) = (t', st')" "r = Inr t'"
proof -
  obtain r0 sa where ls: "load_stdio w isServerless (filter (\<lambda>s. transport s = Stdio) servers) ([], st) = (r0, sa)"
    by (cases "load_stdio w isServerless (filter (\<lambda>s. transport s = Stdio) servers) ([], st)")
  show ?thesis
  proof (cases r0)
    case (Inl e)
    then have "loadMCPTools_try w isServerless servers st = (Inl e, sa)"
      using ls by (simp add: loadMCPTools_try_def)
    then have "r = Inl e" "sa = st'" using assms by simp_all
    then show ?thesis using ls Inl failed[of e] by blast
  next
    case (Inr t)
    obtain t' sb where lh: "load_http w (filter (\<lambda>s. transport s = Http) servers) (t, sa) = (t', sb)"
      by (cases "load_http w (filter (\<lambda>s. transport s = Http) servers) (t, sa)")
    then have "loadMCPTools_try w isServerless servers st = (Inr t', sb)"
      using ls Inr by (simp add: loadMCPTools_try_def)
    then have "r = Inr t'" "sb = st'" using assms by simp_all
    then show ?thesis using ls Inr lh loaded[of t sa t'] by blast
  qed
qed

lemma loadMCPTools_try_effect:
  assumes "loadMCPTools_try w isServerless servers st = (r, st')"
  shows "\<exists>evs. load_effect servers st st' evs"
  using assms
proof (cases rule: loadMCPTools_try_cases)
  case (failed e)
  from load_stdio_effect[OF failed(1)] obtain evs where
    "load_effect (filter (\<lambda>s. transport s = Stdio) servers) st st' evs" by auto
  then have "load_effect servers st st' evs"
    using constructed_from_mono_list[of "filter (\<lambda>s. transport s = Stdio) servers" servers evs]
    by (simp add: load_effect_def)
  then show ?thesis ..
next
  case (loaded t sa t')
  from load_stdio_effect[OF loaded(1)] obtain evs1 where
    e1: "load_effect (filter (\<lambda>s. transport s = Stdio) servers) st sa evs1" by auto
  from load_http_effect[OF loaded(2)] obtain evs2 where
    e2: "http_effect (filter (\<lambda>s. transport s = Http) servers) sa st' evs2" by auto
  have "load_effect servers st st' (evs1 @ evs2)"
    using e1 e2 constructed_from_mono_list[of "filter (\<lambda>s. transport s = Stdio) servers" servers evs1]
      constructed_from_mono_list[of "filter (\<lambda>s. transport s = Http) servers" servers evs2]
    by (simp add: load_effect_def http_effect_def)
  then show ?thesis ..
qed

lemma loadMCPTools_state: "snd (loadMCPTools w isServerless servers st) = snd (loadMCPTools_try w isServerless servers st)"
  by (simp add: loadMCPTools_def split: prod.splits sum.splits failure.splits)

lemma loadMCPTools_result:
  "fst (loadMCPTools w isServerless servers st)
     = (case fst (loadMCPTools_try w isServerless servers st) of
          Inl (Thrown e) \<Rightarrow> Inr []
        | Inl (Uncaught e) \<Rightarrow> Inl (Uncaught e)
        | Inr allTools \<Rightarrow> Inr allTools)"
  by (simp add: loadMCPTools_def split: prod.splits sum.splits failure.splits)

lemma events_since_append: "trace (heap st') = trace (heap st) @ evs \<Longrightarrow> events_since st st' = evs"
  by (simp add: events_since_def)

lemma loadMCPTools_constructed:
  "list_all (constructed_from servers) (events_since st (snd (loadMCPTools w isServerless servers st)))"
proof -
  obtain r st' where l: "loadMCPTools_try w isServerless servers st = (r, st')"
    by (cases "loadMCPTools_try w isServerless servers st")
  from loadMCPTools_try_effect[OF l] obtain evs where "load_effect servers st st' evs" ..
  then show ?thesis using l by (simp add: loadMCPTools_state load_effect_def events_since_append)
qed

subsection \<open>Failures of the load\<close>

text \<open>When no child process emits an \<^verbatim>\<open>error\<close> event, nothing ends the Node
  process, and \<^verbatim>\<open>loadMCPTools\<close> returns a mapping: what the body of its \<^verbatim>\<open>try\<close>
  returns, and the empty mapping when that body throws.\<close>

lemma MCPClient_start_thrown:
  "error_event hs = None \<Longrightarrow> fst (MCPClient_start hs c) \<noteq> Inl (Uncaught e)"
  by (simp add: MCPClient_start_def Let_def split: option.splits prod.splits sum.splits)

lemma addServer_thrown:
  assumes "\<forall>obj. error_event (stdio_server w obj) = None"
  shows "fst (addServer w config mh) \<noteq> Inl (Uncaught e)"
proof -
  obtain clients hp where mh: "mh = (clients, hp)" by (cases mh)
  obtain r clients' hp' where a: "addServer w config (clients, hp) = (r, clients', hp')"
    by (cases "addServer w config (clients, hp)")
  from a have "r \<noteq> Inl (Uncaught e)"
  proof (cases rule: addServer_cases)
    case (failed f c)
    then show ?thesis
      using MCPClient_start_thrown[of "stdio_server w (allocated hp)" "new_MCPClient (sc_name config)" e] assms
      by auto
  qed simp_all
  then show ?thesis using a mh by simp
qed

lemma start_stdio_servers_thrown:
  assumes "\<forall>obj. error_event (stdio_server w obj) = None"
  shows "fst (start_stdio_servers w servers mh) \<noteq> Inl (Uncaught e)"
proof (induction servers arbitrary: mh)
  case Nil
  show ?case by simp
next
  case (Cons server rest)
  show ?case
  proof (cases "truthy (command server)")
    case False
    then show ?thesis using Cons.IH[of mh] by simp
  next
    case True
    obtain r1 mh1 where add: "addServer w (stdio_config_of server) mh = (r1, mh1)"
      by (cases "addServer w (stdio_config_of server) mh")
    have r1: "r1 \<noteq> Inl (Uncaught e)" using addServer_thrown[OF assms, of "stdio_config_of server" mh e] add by simp
    show ?thesis
    proof (cases r1)
      case (Inl f)
      then show ?thesis using True add r1 by simp
    next
      case (Inr u)
      then show ?thesis using True add Cons.IH[of mh1] by simp
    qed
  qed
qed

lemma restart_manager_thrown:
  assumes "\<forall>obj. error_event (stdio_server w obj) = None"
  shows "fst (restart_manager w servers st) \<noteq> Inl (Uncaught e)"
proof -
  define hp where "hp = (case globalMCPManager st of None \<Rightarrow> heap st
                         | Some clients \<Rightarrow> snd (stopAll (clients, heap st)))"
  obtain r0 cl hp' where run: "start_stdio_servers w servers ([], hp) = (r0, cl, hp')"
    by (cases "start_stdio_servers w servers ([], hp)")
  have "r0 \<noteq> Inl (Uncaught e)" using start_stdio_servers_thrown[OF assms, of servers "([], hp)" e] run by simp
  then show ?thesis
    using run unfolding restart_manager_def Let_def hp_def[symmetric] by (cases r0) auto
qed

lemma assign_stdio_tools_thrown: "assign_stdio_tools w st t \<noteq> Inl (Uncaught e)"
  by (simp add: assign_stdio_tools_def split: sum.splits)

lemma loadMCPTools_try_thrown:
  assumes "\<forall>obj. error_event (stdio_server w obj) = None"
  shows "fst (loadMCPTools_try w isServerless servers st) \<noteq> Inl (Uncaught e)"
proof -
  obtain r st' where run: "loadMCPTools_try w isServerless servers st = (r, st')"
    by (cases "loadMCPTools_try w isServerless servers st")
  from run have "r \<noteq> Inl (Uncaught e)"
  proof (cases rule: loadMCPTools_try_cases)
    case (failed f)
    from failed(1) have "f \<noteq> Uncaught e"
    proof (cases rule: load_stdio_cases)
      case unchanged
      then show ?thesis using assign_stdio_tools_thrown[of w st "[]" e] by auto
    next
      case (restart_failed f')
      then show ?thesis
        using restart_manager_thrown[OF assms, of "filter (\<lambda>s. transport s = Stdio) servers" st e]
        by auto
    next
      case restarted
      then show ?thesis using assign_stdio_tools_thrown[of w st' "[]" e] by auto
    qed simp
    then show ?thesis using failed(2) by simp
  qed simp
  then show ?thesis using run by simp
qed

lemma loadMCPTools_returns:
  assumes "\<forall>obj. error_event (stdio_server w obj) = None"
  shows "fst (loadMCPTools w isServerless servers st)
     = Inr (case fst (loadMCPTools_try w isServerless servers st) of
              Inl f \<Rightarrow> [] | Inr allTools \<Rightarrow> allTools)"
proof (cases "fst (loadMCPTools_try w isServerless servers st)")
  case (Inl f)
  then obtain e where "f = Thrown e"
    using loadMCPTools_try_thrown[OF assms, of isServerless servers st] by (cases f) auto
  then show ?thesis using Inl by (simp add: loadMCPTools_result)
next
  case (Inr t)
  then show ?thesis by (simp add: loadMCPTools_result)
qed

text \<open>A tool schema whose translation throws: over the process transport the loader
  returns the empty mapping; over HTTP the client is stored and its tools are left
  out.\<close>

lemma schema_failure_is_caught:
  "fst (loadMCPTools_try null_schema_world False [stdio_cfg ''fs'' (Some ''npx'')] initial_state)
     = Inl (Thrown (Error ''Cannot read properties of null (reading 'type')''))
   \<and> fst (loadMCPTools null_schema_world False [stdio_cfg ''fs'' (Some ''npx'')] initial_state) = Inr []
   \<and> fst (loadMCPTools null_schema_world False [http_cfg ''remote'' (Some ''http://x'')] initial_state)
     = Inr []
   \<and> map fst (globalHTTPClients
        (snd (loadMCPTools null_schema_world False [http_cfg ''remote'' (Some ''http://x'')] initial_state)))
     = [''remote'']"
  by code_simp

text \<open>
  Claim C7 says that for every input and every failure raised during loading,
  \<^verbatim>\<open>loadMCPTools\<close> returns a tool mapping. The code does not do this when the command of
  a process-transport server cannot be spawned: the child process object emits an
  \<^verbatim>\<open>error\<close> event for which \<^verbatim>\<open>MCPClient.start\<close> has registered no listener, the
  exception is uncaught and ends the Node process, and \<^verbatim>\<open>loadMCPTools\<close> does not
  return. A server that is spawned and never answers is another matter: the timeout is
  thrown to the loader, which catches it and returns the empty mapping.
\<close>

theorem unspawnable_command_ends_process:
  "fst (loadMCPTools unspawnable_world False [stdio_cfg ''fs'' (Some ''no-such-command'')] initial_state)
     = Inl (Uncaught (Error ''spawn no-such-command ENOENT''))
   \<and> fst (loadMCPTools_try stdio_silent_world False [stdio_cfg ''fs'' (Some ''npx'')] initial_state)
     = Inl (Thrown (Error ''Request timeout for initialize''))
   \<and> fst (loadMCPTools stdio_silent_world False [stdio_cfg ''fs'' (Some ''npx'')] initial_state) = Inr []"
  by code_simp

text \<open>
  Claim C2 says that when one server fails its handshake the mapping still holds the tools
  of all the others. The code does this for a failing HTTP-transport server, whose start
  is inside a \<^verbatim>\<open>try\<close> of its own, and not for a failing process-transport server: the
  loader then returns the empty mapping and never reaches the HTTP-transport servers.
  Loaded alone, the HTTP-transport server of the example yields its tool.
\<close>

theorem stdio_failure_drops_http_tools:
  "fst (loadMCPTools stdio_silent_world False
          [stdio_cfg ''fs'' (Some ''npx''), http_cfg ''remote'' (Some ''http://x'')] initial_state) = Inr []
   \<and> result_keys (fst (loadMCPTools stdio_silent_world False
          [http_cfg ''remote'' (Some ''http://x'')] initial_state)) = [''mcp_remote_search'']"
  by code_simp

text \<open>
  Claim C1 says that after loading, the mapping has a key \<^verbatim>\<open>mcp_<server>_<tool>\<close> for
  every tool reported by every server that started, and no other key. The code does not
  do this when a process-transport server fails to start after another has started: the
  loop over the process-transport servers has no \<^verbatim>\<open>try\<close> of its own, the failure
  reaches the outer \<^verbatim>\<open>catch\<close>, and the loader returns the empty mapping. In the
  example the server \<^verbatim>\<open>fs\<close> reports the tools \<^verbatim>\<open>read\<close> and \<^verbatim>\<open>write\<close>, its start
  returns with them, and it is in the manager, whose \<^verbatim>\<open>getAllTools\<close> has the two keys;
  \<^verbatim>\<open>bad\<close> never answers. Loaded alone, \<^verbatim>\<open>fs\<close> yields the two keys.
\<close>

theorem started_server_tools_dropped:
  "tools_list_reply (stdio_server later_stdio_silent 0)
     = Inr (Some \<lparr> tools_field = Some [tool ''read'', tool ''write''], raw = ''{}'' \<rparr>)
   \<and> events_since initial_state (snd (loadMCPTools later_stdio_silent False fs_and_bad initial_state))
       = [Constructed 0 Stdio ''fs'' ''npx'', Ready 0 [tool ''read'', tool ''write''],
          Constructed 1 Stdio ''bad'' ''npx'', Failed 1 (Error ''Request timeout for initialize'')]
   \<and> result_keys (manager_tools later_stdio_silent
        (snd (loadMCPTools later_stdio_silent False fs_and_bad initial_state)))
       = [''mcp_fs_read'', ''mcp_fs_write'']
   \<and> fst (loadMCPTools later_stdio_silent False fs_and_bad initial_state) = Inr []
   \<and> result_keys (fst (loadMCPTools later_stdio_silent False [stdio_cfg ''fs'' (Some ''npx'')] initial_state))
       = [''mcp_fs_read'', ''mcp_fs_write'']"
  by code_simp

subsection \<open>Configurations without a command or a URL\<close>

lemma start_stdio_servers_skip:
  "\<forall>c \<in> set servers. \<not> P c \<longrightarrow> \<not> truthy (command c) \<Longrightarrow>
   start_stdio_servers w (filter P servers) mh = start_stdio_servers w servers mh"
proof (induction servers arbitrary: mh)
  case Nil
  then show ?case by simp
next
  case (Cons c cs)
  then show ?case by (cases "addServer w (stdio_config_of c) mh") (auto split: sum.splits)
qed

lemma load_http_server_skip: "\<not> truthy (url c) \<Longrightarrow> load_http_server w c ts = ts"
  by (cases ts) (simp add: load_http_server_def)

lemma load_http_skip:
  "\<forall>c \<in> set servers. \<not> P c \<longrightarrow> \<not> truthy (url c) \<Longrightarrow>
   load_http w (filter P servers) ts = load_http w servers ts"
  by (induction servers arbitrary: ts) (auto simp: load_http_server_skip)

lemma load_http_server_agree:
  assumes "http_part sa = http_part sb"
  shows "fst (load_http_server w c (t, sa)) = fst (load_http_server w c (t, sb))
       \<and> http_part (snd (load_http_server w c (t, sa))) = http_part (snd (load_http_server w c (t, sb)))"
proof -
  have a: "globalHTTPClients sa = globalHTTPClients sb" "heap sa = heap sb"
    using assms by (simp_all add: http_part_def)
  show ?thesis
    unfolding load_http_server_def http_part_def Let_def
    by (simp add: a split: option.splits prod.splits sum.splits)
qed

lemma load_http_agree:
  assumes "http_part sa = http_part sb"
  shows "fst (load_http w servers (t, sa)) = fst (load_http w servers (t, sb))
       \<and> http_part (snd (load_http w servers (t, sa))) = http_part (snd (load_http w servers (t, sb)))"
  using assms
proof (induction servers arbitrary: t sa sb)
  case Nil
  then show ?case by simp
next
  case (Cons c cs)
  obtain ta sa' where a: "load_http_server w c (t, sa) = (ta, sa')" by (cases "load_http_server w c (t, sa)")
  obtain tb sb' where b: "load_http_server w c (t, sb) = (tb, sb')" by (cases "load_http_server w c (t, sb)")
  from load_http_server_agree[OF Cons.prems, of w c t] a b
  have "ta = tb" "http_part sa' = http_part sb'" by simp_all
  then show ?case using Cons.IH[of sa' sb' tb] a b by simp
qed

lemma endpoint_absent_not_truthy:
  "endpoint_absent c \<Longrightarrow> transport c = Stdio \<Longrightarrow> \<not> truthy (command c)"
  "endpoint_absent c \<Longrightarrow> transport c = Http \<Longrightarrow> \<not> truthy (url c)"
  by (simp_all add: endpoint_absent_def truthy_def)

lemma filter_filter_commute: "filter P (filter Q xs) = filter Q (filter P xs)"
  by (induction xs) auto

lemma load_stdio_initial_absent:
  assumes "\<forall>c \<in> set servers. transport c = Stdio"
  shows "fst (load_stdio w isServerless (filter (Not \<circ> endpoint_absent) servers) ([], initial_state))
           = fst (load_stdio w isServerless servers ([], initial_state))
       \<and> http_part (snd (load_stdio w isServerless (filter (Not \<circ> endpoint_absent) servers) ([], initial_state)))
           = http_part (snd (load_stdio w isServerless servers ([], initial_state)))"
proof -
  let ?S' = "filter (Not \<circ> endpoint_absent) servers"
  have skip: "start_stdio_servers w ?S' mh = start_stdio_servers w servers mh" for mh
    by (rule start_stdio_servers_skip) (use assms endpoint_absent_not_truthy(1) in auto)
  have init: "globalMCPManager initial_state = None" "currentServerConfigs initial_state = None"
    by (simp_all add: initial_state_def)
  obtain r cl hp where run: "start_stdio_servers w servers ([], heap initial_state) = (r, cl, hp)"
    by (cases "start_stdio_servers w servers ([], heap initial_state)")
  have rm: "restart_manager w S initial_state =
        (case start_stdio_servers w S ([], heap initial_state) of
           (Inl e, clients', hp') \<Rightarrow> (Inl e, initial_state\<lparr> globalMCPManager := Some clients', heap := hp' \<rparr>)
         | (Inr u, clients', hp') \<Rightarrow>
             (Inr (), initial_state\<lparr> globalMCPManager := Some clients', heap := hp',
                          currentServerConfigs := Some (configHash S) \<rparr>))" for S
    by (simp add: restart_manager_def init)
  show ?thesis
  proof (cases "servers = [] \<or> isServerless")
    case True
    then show ?thesis by (auto simp: load_stdio_def)
  next
    case False
    show ?thesis
    proof (cases "?S' = []")
      case True
      then have "start_stdio_servers w servers ([], heap initial_state) = (Inr (), [], heap initial_state)"
        using skip[of "([], heap initial_state)"] by simp
      then show ?thesis using True False
        by (simp add: load_stdio_def init rm http_part_def manager_clients_def
            assign_stdio_tools_def manager_tools_def)
    next
      case ne: False
      show ?thesis using ne False run skip[of "([], heap initial_state)"]
        by (cases r)
          (simp_all add: load_stdio_def init rm http_part_def assign_stdio_tools_def manager_tools_def
            split: sum.splits)
    qed
  qed
qed

text \<open>A first load returns the same mapping, with the same client objects and the same
  history, as a load of the list without the configurations that have no command or no
  URL; and in every state the client objects a load constructs are for configurations
  that have one (\<open>loadMCPTools_constructed\<close>).\<close>

lemma loadMCPTools_initial_absent:
  "fst (loadMCPTools w isServerless (filter (Not \<circ> endpoint_absent) servers) initial_state)
     = fst (loadMCPTools w isServerless servers initial_state)
   \<and> http_part (snd (loadMCPTools w isServerless (filter (Not \<circ> endpoint_absent) servers) initial_state))
     = http_part (snd (loadMCPTools w isServerless servers initial_state))"
proof -
  let ?K = "Not \<circ> endpoint_absent"
  let ?S = "filter (\<lambda>s. transport s = Stdio) servers"
  let ?H = "filter (\<lambda>s. transport s = Http) servers"
  have fs: "filter (\<lambda>s. transport s = Stdio) (filter ?K servers) = filter ?K ?S"
    and fh: "filter (\<lambda>s. transport s = Http) (filter ?K servers) = filter ?K ?H"
    by (rule filter_filter_commute)+
  have st: "\<forall>c \<in> set ?S. transport c = Stdio" by simp
  note s = load_stdio_initial_absent[OF st, of w isServerless]
  have hskip: "load_http w (filter ?K ?H) ts = load_http w ?H ts" for ts
    by (rule load_http_skip) (use endpoint_absent_not_truthy(2) in auto)
  obtain ra sa where a: "load_stdio w isServerless (filter ?K ?S) ([], initial_state) = (ra, sa)"
    by (cases "load_stdio w isServerless (filter ?K ?S) ([], initial_state)")
  obtain rb sb where b: "load_stdio w isServerless ?S ([], initial_state) = (rb, sb)"
    by (cases "load_stdio w isServerless ?S ([], initial_state)")
  have eq: "ra = rb" "http_part sa = http_part sb" using s a b by simp_all
  have A: "loadMCPTools_try w isServerless (filter ?K servers) initial_state =
             (case (ra, sa) of
                (Inl e, st') \<Rightarrow> (Inl e, st')
              | (Inr allTools, st') \<Rightarrow>
                  (case load_http w ?H (allTools, st') of (allTools', st'') \<Rightarrow> (Inr allTools', st'')))"
    unfolding loadMCPTools_try_def Let_def fs fh hskip a ..
  have B: "loadMCPTools_try w isServerless servers initial_state =
             (case (rb, sb) of
                (Inl e, st') \<Rightarrow> (Inl e, st')
              | (Inr allTools, st') \<Rightarrow>
                  (case load_http w ?H (allTools, st') of (allTools', st'') \<Rightarrow> (Inr allTools', st'')))"
    unfolding loadMCPTools_try_def Let_def b ..
  show ?thesis
  proof (cases rb)
    case (Inl f)
    then show ?thesis using eq unfolding loadMCPTools_def A B by (cases f) simp_all
  next
    case (Inr t)
    from load_http_agree[OF eq(2), of w ?H t] show ?thesis
      using eq Inr unfolding loadMCPTools_def A B by (auto split: prod.splits)
  qed
qed

text \<open>
  Claim C10 says that a process-transport configuration without \<^verbatim>\<open>command\<close> and an
  HTTP-transport configuration without \<^verbatim>\<open>url\<close> are skipped: no session is created
  for them, no error is raised, and their tools are absent from the returned mapping. The
  code does not do this after a restart of the manager has failed. The list whose only
  configuration is \<^verbatim>\<open>fs\<close> without a command is loaded: nothing is constructed, the
  mapping is empty, and the fingerprint of this list is kept. Then \<^verbatim>\<open>fs\<close> with a
  command and \<^verbatim>\<open>bad\<close> are loaded: \<^verbatim>\<open>fs\<close> starts, \<^verbatim>\<open>bad\<close> never answers, the
  load fails after the new manager has replaced the old one and before the fingerprint
  is set. Then the first list is loaded again: its fingerprint is the one kept, the
  manager is asked for its tools, and the mapping has the two tools of \<^verbatim>\<open>fs\<close>, for a
  list in which \<^verbatim>\<open>fs\<close> has no command; nothing is constructed or stopped in this load.
\<close>

theorem stale_manager_serves_commandless_config:
  "fst (loadMCPTools later_stdio_silent False fs_without_command initial_state) = Inr []
   \<and> trace (heap (after_loads later_stdio_silent [(False, fs_without_command)] initial_state)) = []
   \<and> fst (loadMCPTools later_stdio_silent False fs_and_bad
           (after_loads later_stdio_silent [(False, fs_without_command)] initial_state)) = Inr []
   \<and> map fst (manager_clients
        (after_loads later_stdio_silent [(False, fs_without_command), (False, fs_and_bad)] initial_state))
       = [''fs'']
   \<and> currentServerConfigs
        (after_loads later_stdio_silent [(False, fs_without_command), (False, fs_and_bad)] initial_state)
       = Some (configHash fs_without_command)
   \<and> result_keys (fst (loadMCPTools later_stdio_silent False fs_without_command
        (after_loads later_stdio_silent [(False, fs_without_command), (False, fs_and_bad)] initial_state)))
       = [''mcp_fs_read'', ''mcp_fs_write'']
   \<and> events_since
        (after_loads later_stdio_silent [(False, fs_without_command), (False, fs_and_bad)] initial_state)
        (after_loads later_stdio_silent
           [(False, fs_without_command), (False, fs_and_bad), (False, fs_without_command)] initial_state)
       = []"
  by code_simp

subsection \<open>Loading an unchanged list again\<close>

lemma map_filter_agree:
  assumes "map f xs = map f ys" "\<And>x y. f x = f y \<Longrightarrow> P x = P y"
  shows "map f (filter P xs) = map f (filter P ys)"
  using assms(1)
proof (induction xs arbitrary: ys)
  case Nil
  then show ?case by simp
next
  case (Cons x xs)
  then obtain y ys' where ys: "ys = y # ys'" by (cases ys) auto
  then have "f x = f y" "map f xs = map f ys'" using Cons.prems by simp_all
  then show ?case using Cons.IH[of ys'] assms(2)[of x y] ys by simp
qed

lemma restart_fields_transport:
  "restart_fields x = restart_fields y \<Longrightarrow> (transport x = T) = (transport y = T)"
  by (simp add: restart_fields_def)

lemma configHash_restart_fields:
  "configHash servers = map (\<lambda>(n, t, c, a, e, u, h). (n, c, a, e)) (map restart_fields servers)"
  by (simp add: configHash_def restart_fields_def)

lemma load_http_cached:
  assumes "\<forall>c \<in> set servers. truthy (url c) \<longrightarrow> map_of (globalHTTPClients st) (name c) \<noteq> None"
  shows "load_http w servers (t, st) = (cached_tools w st t servers, st)"
  using assms
proof (induction servers arbitrary: t)
  case Nil
  then show ?case by (simp add: cached_tools_def)
next
  case (Cons c cs)
  have step: "load_http_server w c (t, st)
        = ((if truthy (url c)
            then assign_http_tools w (the (map_of (globalHTTPClients st) (name c))) t
            else t), st)"
    using Cons.prems by (auto simp: load_http_server_def)
  show ?case using Cons.IH[of "fst (load_http_server w c (t, st))"] Cons.prems
    by (simp add: step cached_tools_def)
qed

lemma cached_tools_agree:
  assumes "map restart_fields servers' = map restart_fields servers"
  shows "cached_tools w st t servers' = cached_tools w st t servers"
  using assms
proof (induction servers' arbitrary: servers t)
  case Nil
  then show ?case by simp
next
  case (Cons x xs)
  then obtain y ys where ys: "servers = y # ys" by (cases servers) auto
  then have m: "map restart_fields xs = map restart_fields ys" and "restart_fields x = restart_fields y"
    using Cons.prems by simp_all
  then have "name x = name y" "url x = url y" by (simp_all add: restart_fields_def)
  then show ?case using Cons.IH[OF m] ys by (simp add: cached_tools_def)
qed

lemma load_http_result_cached:
  assumes "load_http w servers (t, st) = (t', st')"
    and "trace (heap st') = trace (heap st) @ evs" "list_all (Not \<circ> is_Failed) evs"
    and "\<forall>c \<in> set servers. transport c = Http"
    and "\<forall>n oc. map_of (globalHTTPClients st') n = Some oc \<longrightarrow> map_of (globalHTTPClients sf) n = Some oc"
  shows "t' = cached_tools w sf t servers"
  using assms
proof (induction servers arbitrary: t st evs)
  case Nil
  then show ?case by (simp add: cached_tools_def)
next
  case (Cons c cs)
  obtain t1 st1 where step: "load_http_server w c (t, st) = (t1, st1)"
    by (cases "load_http_server w c (t, st)")
  then have rest: "load_http w cs (t1, st1) = (t', st')" using Cons.prems(1) by simp
  have tr: "transport c = Http" "\<forall>c \<in> set cs. transport c = Http" using Cons.prems(4) by simp_all
  from load_http_server_effect[OF step tr(1)] obtain evs1 where e1: "http_effect [c] st st1 evs1" ..
  from load_http_effect[OF rest tr(2)] obtain evs2 where e2: "http_effect cs st1 st' evs2" ..
  have evs: "evs = evs1 @ evs2" using e1 e2 Cons.prems(2) by (simp add: http_effect_def)
  have nf: "list_all (Not \<circ> is_Failed) evs1" "list_all (Not \<circ> is_Failed) evs2"
    using Cons.prems(3) unfolding evs list_all_append by blast+
  have keep: "map_of (globalHTTPClients st1) n = Some oc \<Longrightarrow> map_of (globalHTTPClients sf) n = Some oc" for n oc
  proof -
    assume "map_of (globalHTTPClients st1) n = Some oc"
    then have "map_of (globalHTTPClients st') n = Some oc" using e2 unfolding http_effect_def by blast
    then show ?thesis using Cons.prems(5) by blast
  qed
  have t1: "t1 = (if truthy (url c)
                  then assign_http_tools w (the (map_of (globalHTTPClients sf) (name c))) t
                  else t)"
    using step
  proof (cases rule: load_http_server_cases)
    case skipped
    then show ?thesis by simp
  next
    case (cached oc)
    then have "map_of (globalHTTPClients sf) (name c) = Some oc" using keep[of "name c" oc] by simp
    then show ?thesis using cached by simp
  next
    case (failed e c')
    then have "evs1 = [Constructed (allocated (heap st)) Http (name c) (the (url c)), Failed (allocated (heap st)) e]"
      using e1 by (simp add: http_effect_def)
    then show ?thesis using nf(1) by simp
  next
    case (started c')
    then have "map_of (globalHTTPClients st1) (name c) = Some (allocated (heap st), c')"
      by (simp add: AList.update_conv')
    then have "map_of (globalHTTPClients sf) (name c) = Some (allocated (heap st), c')" by (rule keep)
    then show ?thesis using started by simp
  qed
  have "t' = cached_tools w sf t1 cs"
    using Cons.IH[OF rest _ nf(2) tr(2) Cons.prems(5)] e2 by (simp add: http_effect_def)
  then show ?case by (simp add: t1 cached_tools_def)
qed

lemma assign_stdio_tools_manager:
  "globalMCPManager sa = globalMCPManager sb \<Longrightarrow> assign_stdio_tools w sa t = assign_stdio_tools w sb t"
  by (simp add: assign_stdio_tools_def manager_tools_def)

lemma first_load_settled:
  assumes "loadMCPTools_try w isServerless servers st = (r, st1)"
    and "list_all (Not \<circ> is_Failed) (events_since st st1)"
  shows "r = (case (if filter (\<lambda>s. transport s = Stdio) servers = [] \<or> isServerless then Inr []
                    else assign_stdio_tools w st1 []) of
                Inl f \<Rightarrow> Inl f
              | Inr t \<Rightarrow> Inr (cached_tools w st1 t (filter (\<lambda>s. transport s = Http) servers)))
       \<and> (filter (\<lambda>s. transport s = Stdio) servers = [] \<or> isServerless
           \<or> currentServerConfigs st1 = Some (configHash (filter (\<lambda>s. transport s = Stdio) servers)))
       \<and> (\<not> isl r \<longrightarrow>
            (\<forall>c \<in> set (filter (\<lambda>s. transport s = Http) servers).
               truthy (url c) \<longrightarrow> map_of (globalHTTPClients st1) (name c) \<noteq> None))"
  using assms(1)
proof (cases rule: loadMCPTools_try_cases)
  case (failed f)
  let ?S = "filter (\<lambda>s. transport s = Stdio) servers"
  have st: "\<forall>c \<in> set ?S. transport c = Stdio" by simp
  from failed(1) show ?thesis
  proof (cases rule: load_stdio_cases)
    case skipped
    then show ?thesis by simp
  next
    case unchanged
    have a: "assign_stdio_tools w st [] = Inl f" using unchanged(4) by simp
    show ?thesis using unchanged(1,2,3,5) failed(2) by (simp add: a)
  next
    case (restart_failed f')
    from restart_manager_effect[OF restart_failed(4) st] obtain evs where
      "stdio_effect ?S st (Inl f') st1 evs" ..
    then have "events_since st st1 = stop_events (manager_clients st) @ evs"
      "\<not> list_all (Not \<circ> is_Failed) evs"
      by (auto simp: stdio_effect_def events_since_def)
    then show ?thesis using assms(2) by simp
  next
    case restarted
    from restart_manager_effect[OF restarted(4) st] obtain evs where "stdio_effect ?S st (Inr ()) st1 evs" ..
    then have c: "currentServerConfigs st1 = Some (configHash ?S)" by (simp add: stdio_effect_def)
    have a: "assign_stdio_tools w st1 [] = Inl f" using restarted(5) by simp
    show ?thesis using restarted(1,2) failed(2) c by (simp add: a)
  qed
next
  case (loaded t sa t')
  let ?S = "filter (\<lambda>s. transport s = Stdio) servers"
  let ?H = "filter (\<lambda>s. transport s = Http) servers"
  have st: "\<forall>c \<in> set ?S. transport c = Stdio" and ht: "\<forall>c \<in> set ?H. transport c = Http" by simp_all
  from load_stdio_effect[OF loaded(1) st] obtain evs1 where e1: "load_effect ?S st sa evs1" ..
  from load_http_effect[OF loaded(2) ht] obtain evs2 where e2: "http_effect ?H sa st1 evs2" ..
  have "events_since st st1 = evs1 @ evs2"
    using e1 e2 by (simp add: load_effect_def http_effect_def events_since_def)
  then have nf: "list_all (Not \<circ> is_Failed) evs2" using assms(2) by simp
  have mc: "globalMCPManager st1 = globalMCPManager sa" "currentServerConfigs st1 = currentServerConfigs sa"
    using e2 by (simp_all add: http_effect_def)
  note am = assign_stdio_tools_manager[OF mc(1), of w "[]"]
  have cached: "\<forall>c \<in> set ?H. truthy (url c) \<longrightarrow> map_of (globalHTTPClients st1) (name c) \<noteq> None"
    using e2 nf by (simp add: http_effect_def)
  have t': "t' = cached_tools w st1 t ?H"
    using load_http_result_cached[OF loaded(2) _ nf ht, of st1] e2 by (simp add: http_effect_def)
  have "(if ?S = [] \<or> isServerless then Inr [] else assign_stdio_tools w st1 []) = Inr t
        \<and> (?S = [] \<or> isServerless \<or> currentServerConfigs st1 = Some (configHash ?S))"
    using loaded(1)
  proof (cases rule: load_stdio_cases)
    case skipped
    then show ?thesis by auto
  next
    case unchanged
    then show ?thesis using mc am by simp
  next
    case restarted
    from restart_manager_effect[OF restarted(4) st] obtain evs where "stdio_effect ?S st (Inr ()) sa evs" ..
    then show ?thesis using restarted mc am by (simp add: stdio_effect_def)
  qed simp
  then show ?thesis using loaded(3) t' cached by simp
qed

text \<open>
  Claim C4, as amended. When no start attempted by a load failed, a second load with the
  same list, or one that differs from it only in \<^verbatim>\<open>description\<close> and \<^verbatim>\<open>enabled\<close>,
  returns the same mapping and leaves the state as it is: no client is stopped, none is
  constructed or started. This holds from every state the first load may start in.
\<close>

theorem unchanged_list_no_restart:
  assumes first: "loadMCPTools w isServerless servers st = (r, st1)"
    and nofail: "list_all (Not \<circ> is_Failed) (events_since st st1)"
    and same: "map restart_fields servers' = map restart_fields servers"
  shows "loadMCPTools w isServerless servers' st1 = (r, st1)"
proof -
  let ?S = "filter (\<lambda>s. transport s = Stdio) servers" and ?H = "filter (\<lambda>s. transport s = Http) servers"
  let ?S' = "filter (\<lambda>s. transport s = Stdio) servers'" and ?H' = "filter (\<lambda>s. transport s = Http) servers'"
  let ?sp = "if ?S = [] \<or> isServerless then Inr [] else assign_stdio_tools w st1 []"
  obtain r0 where try1: "loadMCPTools_try w isServerless servers st = (r0, st1)"
    using first loadMCPTools_state[of w isServerless servers st]
    by (cases "loadMCPTools_try w isServerless servers st") simp
  note settled = first_load_settled[OF try1 nofail]
  have r0: "r0 = (case ?sp of Inl f \<Rightarrow> Inl f | Inr t \<Rightarrow> Inr (cached_tools w st1 t ?H))"
    using settled by blast
  have cur: "?S = [] \<or> isServerless \<or> currentServerConfigs st1 = Some (configHash ?S)"
    using settled by blast
  have cached: "\<not> isl r0 \<Longrightarrow> \<forall>c \<in> set ?H. truthy (url c) \<longrightarrow> map_of (globalHTTPClients st1) (name c) \<noteq> None"
    using settled by blast
  have r: "(r, st1) = (case (r0, st1) of
              (Inl (Thrown e), st') \<Rightarrow> (Inr [], st')
            | (Inl (Uncaught e), st') \<Rightarrow> (Inl (Uncaught e), st')
            | (Inr allTools, st') \<Rightarrow> (Inr allTools, st'))"
    using first try1 by (simp add: loadMCPTools_def)
  have mS: "map restart_fields ?S' = map restart_fields ?S"
    by (rule map_filter_agree[OF same]) (rule restart_fields_transport)
  have mH: "map restart_fields ?H' = map restart_fields ?H"
    by (rule map_filter_agree[OF same]) (rule restart_fields_transport)
  have hash: "configHash ?S' = configHash ?S" by (simp only: configHash_restart_fields mS)
  have "length ?S' = length ?S" using arg_cong[OF mS, of length] by simp
  then have nil: "(?S' = []) = (?S = [])" by (metis length_0_conv)
  have stdio2: "load_stdio w isServerless ?S' ([], st1) = (?sp, st1)"
  proof (cases "?S = [] \<or> isServerless")
    case True
    then have a: "?S' = [] \<or> isServerless" using nil by blast
    have b: "?sp = Inr []" using True by simp
    show ?thesis using a unfolding b load_stdio_def by auto
  next
    case False
    then have a: "?S' \<noteq> []" "\<not> isServerless" using nil by blast+
    have c: "currentServerConfigs st1 = Some (configHash ?S')" using cur False hash by simp
    have b: "?sp = assign_stdio_tools w st1 []" using False by simp
    show ?thesis unfolding b load_stdio_def using a c by simp
  qed
  have try2: "loadMCPTools_try w isServerless servers' st1 = (r0, st1)"
  proof (cases ?sp)
    case (Inl f)
    have "r0 = Inl f" using r0 unfolding Inl by simp
    then show ?thesis unfolding loadMCPTools_try_def Let_def stdio2 Inl by simp
  next
    case (Inr t)
    have r0': "r0 = Inr (cached_tools w st1 t ?H)" using r0 unfolding Inr by simp
    then have nl: "\<not> isl r0" by simp
    have sets: "restart_fields ` set ?H' = restart_fields ` set ?H"
      using arg_cong[OF mH, of set] by (simp only: set_map)
    have cached': "\<forall>c \<in> set ?H'. truthy (url c) \<longrightarrow> map_of (globalHTTPClients st1) (name c) \<noteq> None"
    proof (intro ballI impI)
      fix c' assume c': "c' \<in> set ?H'" and u: "truthy (url c')"
      from c' have "restart_fields c' \<in> restart_fields ` set ?H" unfolding sets[symmetric] by (rule imageI)
      then obtain c where c: "c \<in> set ?H" and eq: "restart_fields c' = restart_fields c" by (rule imageE)
      from eq have n: "name c' = name c" and l: "url c' = url c" by (simp_all add: restart_fields_def)
      from bspec[OF cached[OF nl] c] u show "map_of (globalHTTPClients st1) (name c') \<noteq> None"
        unfolding n l by blast
    qed
    have http2: "load_http w ?H' (t, st1) = (cached_tools w st1 t ?H, st1)"
      using load_http_cached[OF cached', of w t] cached_tools_agree[OF mH] by simp
    show ?thesis unfolding loadMCPTools_try_def Let_def stdio2 Inr using http2 r0' by simp
  qed
  show ?thesis unfolding loadMCPTools_def try2 using r by simp
qed

text \<open>One process-transport and one HTTP-transport server, loaded again with another
  description and disabled.\<close>

theorem unchanged_list_no_restart_witness:
  "list_all (Not \<circ> is_Failed)
     (events_since initial_state (loaded_once all_serving (fs_and_remote ''npx'')))
   \<and> map restart_fields (map (\<lambda>c. c\<lparr> description := Some ''files'', enabled := False \<rparr>) (fs_and_remote ''npx''))
       = map restart_fields (fs_and_remote ''npx'')
   \<and> loadMCPTools all_serving False
        (map (\<lambda>c. c\<lparr> description := Some ''files'', enabled := False \<rparr>) (fs_and_remote ''npx''))
        (loaded_once all_serving (fs_and_remote ''npx''))
       = (fst (loadMCPTools all_serving False (fs_and_remote ''npx'') initial_state),
          loaded_once all_serving (fs_and_remote ''npx''))
   \<and> result_keys (fst (loadMCPTools all_serving False (fs_and_remote ''npx'') initial_state))
       = [''mcp_fs_read'', ''mcp_fs_write'', ''mcp_remote_search'']"
proof -
  let ?L = "fs_and_remote ''npx''"
  let ?L' = "map (\<lambda>c. c\<lparr> description := Some ''files'', enabled := False \<rparr>) ?L"
  have first: "loadMCPTools all_serving False ?L initial_state
                 = (fst (loadMCPTools all_serving False ?L initial_state), loaded_once all_serving ?L)"
    by (simp add: loaded_once_def)
  have nofail: "list_all (Not \<circ> is_Failed) (events_since initial_state (loaded_once all_serving ?L))"
    by code_simp
  have same: "map restart_fields ?L' = map restart_fields ?L"
    by (simp add: fs_and_remote_def restart_fields_def)
  have keys: "result_keys (fst (loadMCPTools all_serving False ?L initial_state))
       = [''mcp_fs_read'', ''mcp_fs_write'', ''mcp_remote_search'']"
    by code_simp
  show ?thesis
    using unchanged_list_no_restart[OF first nofail same] nofail same keys by blast
qed

text \<open>The claim fails when a start of the first load failed: the client of a server that
  could not be reached is not kept, and the second load of the unchanged list constructs
  and starts a new one.\<close>

theorem failed_http_start_is_retried:
  "events_since (loaded_once first_http_unreachable [http_cfg ''remote'' (Some ''http://x'')])
     (loaded_twice first_http_unreachable [http_cfg ''remote'' (Some ''http://x'')]
        [http_cfg ''remote'' (Some ''http://x'')])
     = [Constructed 1 Http ''remote'' ''http://x'', Ready 1 [tool ''search'']]"
  by code_simp

subsection \<open>Loading a list with a changed command\<close>

lemma update_absent: "map_of al k = None \<Longrightarrow> AList.update k v al = al @ [(k, v)]"
  by (induction al) (auto split: if_splits)

lemma startable_cong: "set seen = set seen' \<Longrightarrow> startable seen cs = startable seen' cs"
proof (induction cs arbitrary: seen seen')
  case Nil
  then show ?case by simp
next
  case (Cons c cs)
  have "startable (name c # seen) cs = startable (name c # seen') cs"
    by (rule Cons.IH) (simp add: Cons.prems)
  moreover have "startable seen cs = startable seen' cs" by (rule Cons.IH) (rule Cons.prems)
  ultimately show ?case using Cons.prems by simp
qed

lemma map_of_None_keys: "(map_of al k = None) = (k \<notin> set (map fst al))"
  by (simp add: map_of_eq_None_iff)

lemma start_stdio_servers_clients:
  assumes "start_stdio_servers w servers (clients, hp) = (Inr (), clients', hp')"
    and "\<forall>c \<in> set servers. transport c = Stdio"
  shows "map fst clients' = map fst clients @ map name (startable (map fst clients) servers)
       \<and> (\<forall>(n, obj, cl) \<in> set clients'.
             (n, obj, cl) \<in> set clients
             \<or> (allocated hp \<le> obj \<and> Ready obj (tools cl) \<in> set (drop (length (trace hp)) (trace hp'))))"
  using assms
proof (induction servers arbitrary: clients hp)
  case Nil
  then show ?case by auto
next
  case (Cons server rest)
  have rest_tr: "\<forall>c \<in> set rest. transport c = Stdio" using Cons.prems(2) by simp
  show ?case
  proof (cases "truthy (command server)")
    case False
    then have "start_stdio_servers w rest (clients, hp) = (Inr (), clients', hp')"
      using Cons.prems(1) by simp
    from Cons.IH[OF this rest_tr] show ?thesis using False by simp
  next
    case True
    obtain r1 c1 h1 where add: "addServer w (stdio_config_of server) (clients, hp) = (r1, c1, h1)"
      by (cases "addServer w (stdio_config_of server) (clients, hp)")
    have nm: "sc_name (stdio_config_of server) = name server" by (simp add: stdio_config_of_def)
    from add show ?thesis
    proof (cases rule: addServer_cases)
      case present
      then have run: "start_stdio_servers w rest (clients, hp) = (Inr (), clients', hp')"
        using Cons.prems(1) True add by simp
      have "name server \<in> set (map fst clients)" using present(1) unfolding nm map_of_None_keys by simp
      then show ?thesis using Cons.IH[OF run rest_tr] by simp
    next
      case (failed e c)
      then show ?thesis using Cons.prems(1) True add by simp
    next
      case (started c)
      then have run: "start_stdio_servers w rest (c1, h1) = (Inr (), clients', hp')"
        using Cons.prems(1) True add by simp
      have absent: "name server \<notin> set (map fst clients)" using started(1) unfolding nm map_of_None_keys .
      have c1: "c1 = clients @ [(name server, allocated hp, c)]"
        using started(1,4) unfolding nm by (simp add: update_absent)
      have h1: "trace h1 = trace hp @ [Constructed (allocated hp) Stdio (name server) (sc_command (stdio_config_of server)),
                                        Ready (allocated hp) (tools c)]"
        "allocated h1 = allocated hp + 1"
        using started(5) unfolding nm by simp_all
      from start_stdio_servers_trace[OF run rest_tr] obtain evs where
        evs: "trace hp' = trace h1 @ evs" by blast
      note ih = Cons.IH[OF run rest_tr]
      have keys: "map fst clients' = map fst clients @ map name (startable (map fst clients) (server # rest))"
      proof -
        have "startable (map fst c1) rest = startable (name server # map fst clients) rest"
          by (rule startable_cong) (auto simp: c1)
        then show ?thesis using ih True absent by (simp add: c1)
      qed
      have dr: "drop (length (trace hp)) (trace hp')
                  = [Constructed (allocated hp) Stdio (name server) (sc_command (stdio_config_of server)),
                     Ready (allocated hp) (tools c)] @ drop (length (trace h1)) (trace hp')"
        using evs h1(1) by simp
      have fresh: "(n, obj, cl) \<in> set clients \<or>
                   (allocated hp \<le> obj \<and> Ready obj (tools cl) \<in> set (drop (length (trace hp)) (trace hp')))"
        if mem: "(n, obj, cl) \<in> set clients'" for n obj cl
      proof -
        from ih mem have "(n, obj, cl) \<in> set c1
             \<or> (allocated h1 \<le> obj \<and> Ready obj (tools cl) \<in> set (drop (length (trace h1)) (trace hp')))"
          by blast
        then show ?thesis unfolding dr using c1 h1(2) by auto
      qed
      show ?thesis using keys fresh by blast
    qed
  qed
qed

lemma filter_stop_events [simp]: "filter is_Stopped (stop_events clients) = stop_events clients"
  by (induction clients) (auto simp: stop_events_def)

lemma filter_not_Stopped: "list_all (Not \<circ> is_Stopped) evs \<Longrightarrow> filter is_Stopped evs = []"
  by (induction evs) auto

lemma restart_manager_Inr:
  assumes "restart_manager w servers st = (Inr (), st')" "\<forall>c \<in> set servers. transport c = Stdio"
  shows "\<exists>evs. trace (heap st') = trace (heap st) @ stop_events (manager_clients st) @ evs
           \<and> list_all (Not \<circ> is_Stopped) evs
           \<and> map fst (manager_clients st') = map name (startable [] servers)
           \<and> (\<forall>(n, obj, cl) \<in> set (manager_clients st').
                 allocated (heap st) \<le> obj \<and> Ready obj (tools cl) \<in> set evs)
           \<and> globalHTTPClients st' = globalHTTPClients st"
proof -
  define hp where "hp = (case globalMCPManager st of None \<Rightarrow> heap st
                         | Some clients \<Rightarrow> snd (stopAll (clients, heap st)))"
  have hp: "trace hp = trace (heap st) @ stop_events (manager_clients st)" "allocated hp = allocated (heap st)"
    by (auto simp: hp_def manager_clients_def stopAll_def stop_events_def split: option.splits)
  obtain r0 cl hp' where run: "start_stdio_servers w servers ([], hp) = (r0, cl, hp')"
    by (cases "start_stdio_servers w servers ([], hp)")
  have r0: "r0 = Inr ()" and st': "st' = st\<lparr> globalMCPManager := Some cl, heap := hp',
                          currentServerConfigs := Some (configHash servers) \<rparr>"
    using assms(1) run unfolding restart_manager_def Let_def hp_def[symmetric]
    by (cases r0; auto)+
  from start_stdio_servers_trace[OF run assms(2)] obtain evs where
    evs: "trace hp' = trace hp @ evs" "list_all (Not \<circ> is_Stopped) evs" by blast
  from start_stdio_servers_clients[OF run[unfolded r0] assms(2)]
  have cl: "map fst cl = map name (startable [] servers)"
    "\<forall>(n, obj, c) \<in> set cl. allocated hp \<le> obj \<and> Ready obj (tools c) \<in> set evs"
    using evs(1) by auto
  have "trace (heap st') = trace (heap st) @ stop_events (manager_clients st) @ evs
           \<and> list_all (Not \<circ> is_Stopped) evs
           \<and> map fst (manager_clients st') = map name (startable [] servers)
           \<and> (\<forall>(n, obj, cl) \<in> set (manager_clients st').
                 allocated (heap st) \<le> obj \<and> Ready obj (tools cl) \<in> set evs)
           \<and> globalHTTPClients st' = globalHTTPClients st"
    using evs cl hp by (simp add: st' manager_clients_def)
  then show ?thesis ..
qed

lemma changed_command_hash:
  assumes "transport c = Stdio" "cmd' \<noteq> command c"
  shows "configHash (filter (\<lambda>s. transport s = Stdio) (pre @ c\<lparr> command := cmd' \<rparr> # post))
           \<noteq> configHash (filter (\<lambda>s. transport s = Stdio) (pre @ c # post))"
proof
  let ?g = "\<lambda>s. (name s, command s, args s, env s)"
  let ?A = "filter (\<lambda>s. transport s = Stdio) pre" and ?B = "filter (\<lambda>s. transport s = Stdio) post"
  assume "configHash (filter (\<lambda>s. transport s = Stdio) (pre @ c\<lparr> command := cmd' \<rparr> # post))
           = configHash (filter (\<lambda>s. transport s = Stdio) (pre @ c # post))"
  then have "map ?g ?A @ ?g (c\<lparr> command := cmd' \<rparr>) # map ?g ?B = map ?g ?A @ ?g c # map ?g ?B"
    using assms(1) by (simp add: configHash_def)
  then have "?g (c\<lparr> command := cmd' \<rparr>) = ?g c" by simp
  then show False using assms(2) by simp
qed

lemma loaded_current:
  assumes "loadMCPTools_try w False servers st = (Inr t1, st1)"
    and "filter (\<lambda>s. transport s = Stdio) servers \<noteq> []"
  shows "currentServerConfigs st1 = Some (configHash (filter (\<lambda>s. transport s = Stdio) servers))"
  using assms(1)
proof (cases rule: loadMCPTools_try_cases)
  case (loaded t sa t')
  let ?S = "filter (\<lambda>s. transport s = Stdio) servers"
  have st: "\<forall>c \<in> set ?S. transport c = Stdio" by simp
  have "currentServerConfigs sa = Some (configHash ?S)"
    using loaded(1)
  proof (cases rule: load_stdio_cases)
    case skipped
    then show ?thesis using assms(2) by simp
  next
    case unchanged
    then show ?thesis by simp
  next
    case restarted
    from restart_manager_effect[OF restarted(4) st] show ?thesis by (auto simp: stdio_effect_def)
  qed simp
  moreover from load_http_effect[OF loaded(2)] have "currentServerConfigs st1 = currentServerConfigs sa"
    by (auto simp: http_effect_def)
  ultimately show ?thesis by simp
qed simp

text \<open>
  Claim C5, as amended. Process transport is permitted, the list is loaded, the command of
  one process-transport configuration changes, and the list is loaded again; in both
  loads the body of the \<^verbatim>\<open>try\<close> completes: no start of a process-transport server
  fails, and reading the manager's tools does not throw. Then the second load stops the
  running clients of the old manager and nothing else; the new manager holds, in the order
  of the list, a client for every process-transport configuration that has a command and
  whose name no earlier one has; each of them is a new object, started in this load; and
  every HTTP client object that was there before the second load is still there
  unchanged.
\<close>

theorem command_change_restarts_cohort:
  assumes first: "loadMCPTools_try w False (pre @ c # post) st = (Inr t1, st1)"
    and stdio: "transport c = Stdio"
    and changed: "cmd' \<noteq> command c"
    and second: "loadMCPTools_try w False (pre @ c\<lparr> command := cmd' \<rparr> # post) st1 = (Inr t2, st2)"
  shows "filter is_Stopped (events_since st1 st2) = stop_events (manager_clients st1)
       \<and> map fst (manager_clients st2)
           = map name (startable [] (filter (\<lambda>s. transport s = Stdio) (pre @ c\<lparr> command := cmd' \<rparr> # post)))
       \<and> (\<forall>(n, obj, cl) \<in> set (manager_clients st2).
             allocated (heap st1) \<le> obj \<and> Ready obj (tools cl) \<in> set (events_since st1 st2))
       \<and> (\<forall>n oc. map_of (globalHTTPClients st1) n = Some oc
                  \<longrightarrow> map_of (globalHTTPClients st2) n = Some oc)"
  using second
proof (cases rule: loadMCPTools_try_cases)
  case (loaded t sa t')
  let ?S = "filter (\<lambda>s. transport s = Stdio) (pre @ c # post)"
  let ?S' = "filter (\<lambda>s. transport s = Stdio) (pre @ c\<lparr> command := cmd' \<rparr> # post)"
  let ?H' = "filter (\<lambda>s. transport s = Http) (pre @ c\<lparr> command := cmd' \<rparr> # post)"
  have st: "\<forall>c \<in> set ?S'. transport c = Stdio" and ht: "\<forall>c \<in> set ?H'. transport c = Http"
    by (simp_all only: set_filter) blast+
  have ne: "?S \<noteq> []" "?S' \<noteq> []" using stdio by simp_all
  have cur: "currentServerConfigs st1 = Some (configHash ?S)" using first ne(1) by (rule loaded_current)
  have diff: "currentServerConfigs st1 \<noteq> Some (configHash ?S')"
    using changed_command_hash[OF stdio changed, of pre post] cur by simp
  have rm: "restart_manager w ?S' st1 = (Inr (), sa)"
    using loaded(1)
  proof (cases rule: load_stdio_cases)
    case skipped
    then show ?thesis using ne(2) by simp
  next
    case unchanged
    then show ?thesis using diff by simp
  qed simp_all
  from restart_manager_Inr[OF rm st] obtain evs1 where
    e1: "trace (heap sa) = trace (heap st1) @ stop_events (manager_clients st1) @ evs1"
      "list_all (Not \<circ> is_Stopped) evs1"
      "map fst (manager_clients sa) = map name (startable [] ?S')"
      "\<forall>(n, obj, cl) \<in> set (manager_clients sa). allocated (heap st1) \<le> obj \<and> Ready obj (tools cl) \<in> set evs1"
      "globalHTTPClients sa = globalHTTPClients st1" by blast
  from load_http_effect[OF loaded(2) ht] obtain evs2 where e2: "http_effect ?H' sa st2 evs2" ..
  have ev: "events_since st1 st2 = stop_events (manager_clients st1) @ evs1 @ evs2"
    using e1(1) e2 by (simp add: http_effect_def events_since_def)
  have mc: "manager_clients st2 = manager_clients sa"
    using e2 by (simp add: http_effect_def manager_clients_def)
  have a: "filter is_Stopped (events_since st1 st2) = stop_events (manager_clients st1)"
    using e1(2) e2 by (simp add: ev filter_not_Stopped http_effect_def)
  have b: "\<forall>(n, obj, cl) \<in> set (manager_clients st2).
             allocated (heap st1) \<le> obj \<and> Ready obj (tools cl) \<in> set (events_since st1 st2)"
    using e1(4) unfolding mc ev by auto
  have d: "\<forall>n oc. map_of (globalHTTPClients st1) n = Some oc \<longrightarrow> map_of (globalHTTPClients st2) n = Some oc"
    using e2 unfolding http_effect_def e1(5) by blast
  show ?thesis using a b d e1(3) unfolding mc by blast
qed simp

text \<open>A process-transport server whose command changes, beside an HTTP-transport
  server.\<close>

theorem command_change_restarts_cohort_witness:
  "stop_events (manager_clients (loaded_once all_serving (fs_and_remote ''npx''))) = [Stopped 0]
   \<and> filter is_Stopped
        (events_since (loaded_once all_serving (fs_and_remote ''npx''))
           (loaded_twice all_serving (fs_and_remote ''npx'') (fs_and_remote ''node''))) = [Stopped 0]
   \<and> map fst (manager_clients (loaded_twice all_serving (fs_and_remote ''npx'') (fs_and_remote ''node'')))
       = [''fs'']
   \<and> map_of (globalHTTPClients (loaded_once all_serving (fs_and_remote ''npx''))) ''remote''
       = map_of (globalHTTPClients (loaded_twice all_serving (fs_and_remote ''npx'') (fs_and_remote ''node''))) ''remote''"
proof -
  let ?c = "stdio_cfg ''fs'' (Some ''npx'')"
  let ?post = "[http_cfg ''remote'' (Some ''http://x'')]"
  let ?s1 = "loaded_once all_serving (fs_and_remote ''npx'')"
  let ?s2 = "loaded_twice all_serving (fs_and_remote ''npx'') (fs_and_remote ''node'')"
  have l1: "[] @ ?c # ?post = fs_and_remote ''npx''" by (simp add: fs_and_remote_def)
  have l2: "[] @ ?c\<lparr> command := Some ''node'' \<rparr> # ?post = fs_and_remote ''node''"
    by (simp add: fs_and_remote_def stdio_cfg_def)
  have ok1: "\<not> isl (fst (loadMCPTools_try all_serving False (fs_and_remote ''npx'') initial_state))"
    by code_simp
  have ok2: "\<not> isl (fst (loadMCPTools_try all_serving False (fs_and_remote ''node'') ?s1))"
    by code_simp
  have first: "loadMCPTools_try all_serving False ([] @ ?c # ?post) initial_state
                 = (Inr (projr (fst (loadMCPTools_try all_serving False (fs_and_remote ''npx'') initial_state))), ?s1)"
    unfolding l1 using ok1 by (simp add: loaded_once_def loadMCPTools_state prod_eq_iff)
  have second: "loadMCPTools_try all_serving False ([] @ ?c\<lparr> command := Some ''node'' \<rparr> # ?post) ?s1
                 = (Inr (projr (fst (loadMCPTools_try all_serving False (fs_and_remote ''node'') ?s1))), ?s2)"
    unfolding l2 using ok2 by (simp add: loaded_twice_def loadMCPTools_state prod_eq_iff)
  have tr: "transport ?c = Stdio" and ch: "Some ''node'' \<noteq> command ?c" by (simp_all add: stdio_cfg_def)
  have stops: "stop_events (manager_clients ?s1) = [Stopped 0]" by code_simp
  have keys: "map name (startable [] (filter (\<lambda>s. transport s = Stdio) (fs_and_remote ''node''))) = [''fs'']"
    by code_simp
  have remote: "map_of (globalHTTPClients ?s1) ''remote'' \<noteq> None" by code_simp
  then obtain oc where oc: "map_of (globalHTTPClients ?s1) ''remote'' = Some oc" by blast
  note main = command_change_restarts_cohort[OF first tr ch second, unfolded l2]
  have r2: "map_of (globalHTTPClients ?s2) ''remote'' = Some oc" using main oc by blast
  have a: "filter is_Stopped (events_since ?s1 ?s2) = [Stopped 0]" using main stops by simp
  have b: "map fst (manager_clients ?s2) = [''fs'']" using main keys by simp
  show ?thesis unfolding oc r2 using stops a b by simp
qed

text \<open>The claim fails for a process-transport configuration without a command: the
  second load stops the old client and starts one for \<^verbatim>\<open>fs\<close>, and none for
  \<^verbatim>\<open>db\<close>.\<close>

theorem config_without_command_not_started:
  "events_since (loaded_once all_serving (fs_and_db ''npx''))
     (loaded_twice all_serving (fs_and_db ''npx'') (fs_and_db ''node''))
     = [Stopped 0, Constructed 1 Stdio ''fs'' ''node'', Ready 1 [tool ''read'', tool ''write'']]
   \<and> map fst (manager_clients (loaded_twice all_serving (fs_and_db ''npx'') (fs_and_db ''node''))) = [''fs'']"
  by code_simp

end
